theory Spec2Isabelle
  imports Main "HOL-Library.Word"
begin

section \<open>Outcomes of a run\<close>

text \<open>
  The program ends a run in one of four ways that matter here: it returns, it calls
  \<open>exit(EXIT_FAILURE)\<close> after a diagnostic, an \<open>assert\<close> fails (\<open>abort()\<close>), or it
  leaves the behaviour defined by C (an out-of-bounds access, a null pointer handed to a
  library function). The last three are values of \<open>fault\<close>. Of a diagnostic,
  \<open>Exit_failure\<close> keeps the fixed words and the values printed with them; the quotation
  marks around a value, the text of \<open>strerror\<close> and the newline are left out, and the
  usage text is \<open>Usage\<close>.
\<close>

datatype fault =
    Assert_failed
  | Undefined_behaviour
  | Exit_failure string

section \<open>The staging buffer (\<open>struct fbuf\<close>)\<close>

type_synonym size_t = "64 word"
type_synonym byte = "8 word"

record fbuf =
  bytes_in_buf :: size_t
  buf :: "byte list"

text \<open>\<open>sizeof(f->buf)\<close> for \<open>uint8_t buf[4096]\<close>.\<close>

definition buf_size :: size_t where
  "buf_size = 4096"

text \<open>
  \<open>assert\<close> is compiled out when \<open>NDEBUG\<close> is defined. The source does not define it and
  the build flags are not part of the source file, so every function containing an
  \<open>assert\<close> takes the flag \<open>ndebug\<close> (True: \<open>NDEBUG\<close> defined, assertions are no-ops).
\<close>

definition fbuf_feed :: "bool \<Rightarrow> fbuf \<Rightarrow> size_t \<Rightarrow> fault + fbuf" where
  "fbuf_feed ndebug f n =
     (let f' = f\<lparr>bytes_in_buf := bytes_in_buf f + n\<rparr>
      in if ndebug \<or> bytes_in_buf f' < n then Inr f' else Inl Assert_failed)"

text \<open>\<open>fbuf_space_ptr\<close> and \<open>fbuf_data_ptr\<close> as offsets into \<open>buf\<close>.\<close>

definition fbuf_space_ptr :: "fbuf \<Rightarrow> nat" where
  "fbuf_space_ptr f = unat (bytes_in_buf f)"

definition fbuf_space :: "fbuf \<Rightarrow> size_t" where
  "fbuf_space f = buf_size - bytes_in_buf f"

definition fbuf_data_ptr :: "fbuf \<Rightarrow> nat" where
  "fbuf_data_ptr f = 0"

definition fbuf_data :: "fbuf \<Rightarrow> size_t" where
  "fbuf_data f = bytes_in_buf f"

text \<open>
  \<open>memmove(b + dst, b + src, len)\<close> inside one array; touching bytes outside the array
  is undefined.
\<close>

definition memmove_buf :: "byte list \<Rightarrow> nat \<Rightarrow> nat \<Rightarrow> nat \<Rightarrow> byte list option" where
  "memmove_buf b dst src len =
     (if src + len \<le> length b \<and> dst + len \<le> length b
      then Some (take dst b @ take len (drop src b) @ drop (dst + len) b)
      else None)"

definition fbuf_eat :: "bool \<Rightarrow> fbuf \<Rightarrow> size_t \<Rightarrow> fault + fbuf" where
  "fbuf_eat ndebug f n =
     (if \<not> ndebug \<and> \<not> n \<le> bytes_in_buf f then Inl Assert_failed
      else case memmove_buf (buf f) 0 (unat n) (unat (bytes_in_buf f - n)) of
             None \<Rightarrow> Inl Undefined_behaviour
           | Some b' \<Rightarrow> Inr (f\<lparr>buf := b', bytes_in_buf := bytes_in_buf f - n\<rparr>))"

definition fbuf_init :: "fbuf \<Rightarrow> fbuf" where
  "fbuf_init f = f\<lparr>bytes_in_buf := 0\<rparr>"

text \<open>The bytes the buffer holds: the first \<open>bytes_in_buf\<close> bytes of \<open>buf\<close>.\<close>

definition fbuf_contents :: "fbuf \<Rightarrow> byte list" where
  "fbuf_contents f = take (unat (fbuf_data f)) (drop (fbuf_data_ptr f) (buf f))"

section \<open>The streams of the copier\<close>

text \<open>
  The input \<open>FILE *\<close>: the bytes not yet read, the end-of-file indicator that \<open>feof\<close>
  tests, and what the next calls of \<open>fread\<close> do. \<open>Rd_fail\<close> is a call that returns 0
  without reaching the end of the stream (a read error); \<open>Rd_upto k\<close> is a call that
  delivers at most \<open>k + 1\<close> bytes. Once the list is used up every call delivers all that
  was asked for. A call that asks for 0 bytes, or that finds the indicator set, returns 0
  and leaves the stream alone; a call that finds the stream at its end sets the indicator.
\<close>

datatype rd_event = Rd_fail | Rd_upto nat

record in_stream =
  pending :: "byte list"
  eof_ind :: bool
  rd_sched :: "rd_event list"

definition deliver :: "nat \<Rightarrow> in_stream \<Rightarrow> byte list \<times> in_stream" where
  "deliver m s =
     (if pending s = [] then ([], s\<lparr>eof_ind := True\<rparr>)
      else (take m (pending s), s\<lparr>pending := drop m (pending s)\<rparr>))"

definition fread :: "nat \<Rightarrow> in_stream \<Rightarrow> byte list \<times> in_stream" where
  "fread n s =
     (if n = 0 \<or> eof_ind s then ([], s)
      else case rd_sched s of
             [] \<Rightarrow> deliver n s
           | Rd_fail # rs \<Rightarrow> ([], s\<lparr>rd_sched := rs\<rparr>)
           | Rd_upto k # rs \<Rightarrow> deliver (min n (Suc k)) (s\<lparr>rd_sched := rs\<rparr>))"

definition feof :: "in_stream \<Rightarrow> bool" where
  "feof s = eof_ind s"

text \<open>
  The output descriptor: the bytes written so far and what the next calls of \<open>write\<close>
  do. \<open>Wr_zero\<close> returns 0, \<open>Wr_fail\<close> returns -1, \<open>Wr_upto k\<close> accepts at most
  \<open>k + 1\<close> bytes; once the list is used up every call accepts all it is given.
\<close>

datatype wr_event = Wr_zero | Wr_fail | Wr_upto nat

record out_fd =
  written :: "byte list"
  wr_sched :: "wr_event list"

definition write_fd :: "byte list \<Rightarrow> out_fd \<Rightarrow> int \<times> out_fd" where
  "write_fd d s =
     (case wr_sched s of
        [] \<Rightarrow> (int (length d), s\<lparr>written := written s @ d\<rparr>)
      | Wr_zero # ws \<Rightarrow> (0, s\<lparr>wr_sched := ws\<rparr>)
      | Wr_fail # ws \<Rightarrow> (- 1, s\<lparr>wr_sched := ws\<rparr>)
      | Wr_upto k # ws \<Rightarrow>
          (int (min (length d) (Suc k)),
           s\<lparr>written := written s @ take (min (length d) (Suc k)) d, wr_sched := ws\<rparr>))"

section \<open>The streaming copier (\<open>copy_file_to_fd\<close>)\<close>

record copy_state =
  read_bytes :: size_t
  written_bytes :: size_t
  err :: "32 word"
  done_reading :: bool
  f :: fbuf
  in_file :: in_stream
  out :: out_fd

text \<open>
  \<open>fread(fbuf_space_ptr(&f), 1, fbuf_space(&f), in_file)\<close> stores what it read at the
  offset of the free space; storing past the end of the array is undefined.
\<close>

definition store_at :: "byte list \<Rightarrow> nat \<Rightarrow> byte list \<Rightarrow> byte list option" where
  "store_at b off d =
     (if off + length d \<le> length b then Some (take off b @ d @ drop (off + length d) b)
      else None)"

text \<open>
  The result of the copier is the value it returns (\<open>ssize_t\<close>, the two's complement
  reading of \<open>written_bytes\<close>, or -1) or a fault, together with the state it stopped in,
  which holds the bytes that reached the output descriptor.
\<close>

type_synonym copy_result = "(fault + int) \<times> copy_state"

text \<open>
  \<open>copy_loop\<close> is the body of \<open>for (;;)\<close> from its top, \<open>drain_loop\<close> the body of the
  \<open>do ... while\<close> from its top. \<open>continue\<close> and \<open>break\<close> are calls of \<open>copy_loop\<close>.
\<close>

function copy_loop :: "bool \<Rightarrow> copy_state \<Rightarrow> copy_result"
  and drain_loop :: "bool \<Rightarrow> copy_state \<Rightarrow> copy_result" where
  "copy_loop ndebug s =
     (if err s > 10 then (Inr (- 1), s)
      else
        let (d, fi) = fread (unat (fbuf_space (f s))) (in_file s);
            rl = length d
        in if rl = 0 \<and> \<not> feof fi
           then copy_loop ndebug (s\<lparr>err := err s + 1, in_file := fi\<rparr>)
           else
             case store_at (buf (f s)) (fbuf_space_ptr (f s)) d of
               None \<Rightarrow> (Inl Undefined_behaviour, s\<lparr>in_file := fi\<rparr>)
             | Some b' \<Rightarrow>
                 (case fbuf_feed ndebug ((f s)\<lparr>buf := b'\<rparr>) (of_nat rl) of
                    Inl e \<Rightarrow> (Inl e, s\<lparr>in_file := fi\<rparr>)
                  | Inr f' \<Rightarrow>
                      drain_loop ndebug
                        (s\<lparr>done_reading := (done_reading s \<or> rl = 0),
                           f := f',
                           read_bytes := read_bytes s + of_nat rl,
                           in_file := fi\<rparr>)))"
| "drain_loop ndebug s =
     (if fbuf_data (f s) = 0 then (Inr (sint (written_bytes s)), s)
      else
        let (wl, o') = write_fd (fbuf_contents (f s)) (out s)
        in if wl = 0 then copy_loop ndebug (s\<lparr>err := err s + 1, out := o'\<rparr>)
           else if wl < 0 then copy_loop ndebug (s\<lparr>err := err s + 1, out := o'\<rparr>)
           else
             case fbuf_eat ndebug (f s) (of_int wl) of
               Inl e \<Rightarrow> (Inl e, s\<lparr>out := o'\<rparr>)
             | Inr f' \<Rightarrow>
                 let s' = s\<lparr>f := f', written_bytes := written_bytes s + of_int wl, out := o'\<rparr>
                 in if fbuf_space (f s') = 0 \<or> done_reading s' then drain_loop ndebug s'
                    else copy_loop ndebug s')"
  by pat_completeness auto

subsection \<open>Termination of the copier\<close>

text \<open>
  Every round either uses up one unit of the error budget, or takes bytes from the input,
  or takes bytes from the buffer, so the loops end on every finite input.
\<close>

lemma fread_length:
  "fread n s = (d, s') \<Longrightarrow> length (pending s') + length d = length (pending s)"
  by (auto simp: fread_def deliver_def split: if_splits list.splits rd_event.splits)

lemma write_fd_bounds:
  "write_fd d s = (wl, s') \<Longrightarrow> wl \<le> int (length d)"
  by (auto simp: write_fd_def split: list.splits wr_event.splits)

text \<open>
  What is left of the error budget when the \<open>for\<close> loop is entered with counter \<open>e\<close>;
  it orders the states for the termination proof.
\<close>

definition budget :: "32 word \<Rightarrow> nat" where
  "budget e = (if e > 10 then 0 else 11 - unat e)"

lemma unat_err_succ: "\<not> (e :: 32 word) > 10 \<Longrightarrow> unat (e + 1) = unat e + 1"
  by (simp add: not_less word_le_nat_alt unat_word_ariths)

lemma budget_eq: "\<not> e > 10 \<Longrightarrow> budget (e + 1) + 1 = budget e"
  by (auto simp: budget_def unat_err_succ word_less_nat_alt not_less word_le_nat_alt)

lemma budget_le: "budget e \<le> budget (e + 1) + 1"
proof (cases "e > 10")
  case True
  then show ?thesis by (simp add: budget_def)
next
  case False
  then show ?thesis using budget_eq[of e] by simp
qed

lemma fbuf_contents_length: "length (fbuf_contents g) \<le> unat (bytes_in_buf g)"
  by (simp add: fbuf_contents_def fbuf_data_def)

lemma unat_sub_of_int:
  fixes c :: size_t
  assumes "0 < wl" "wl \<le> int (unat c)"
  shows "unat (c - of_int wl) = unat c - nat wl"
proof -
  have a: "of_int wl = (of_nat (nat wl) :: size_t)" using assms by simp
  have b: "nat wl \<le> unat c" using assms by linarith
  have c: "unat (of_nat (nat wl) :: size_t) = nat wl"
    using b by (rule le_unat_uoi)
  have "(of_nat (nat wl) :: size_t) \<le> c"
    using b c by (simp add: word_le_nat_alt)
  then show ?thesis using a c by (simp add: unat_sub)
qed

lemma eat_decreases:
  assumes "write_fd (fbuf_contents g) o1 = (wl, o2)" "0 < wl"
    "fbuf_eat nd g (of_int wl) = Inr g'"
  shows "unat (bytes_in_buf g') < unat (bytes_in_buf g)"
proof -
  have "wl \<le> int (unat (bytes_in_buf g))"
    using write_fd_bounds[OF assms(1)] fbuf_contents_length[of g] by linarith
  then have "unat (bytes_in_buf g - of_int wl) = unat (bytes_in_buf g) - nat wl"
    using assms(2) by (rule unat_sub_of_int[rotated])
  moreover have "bytes_in_buf g' = bytes_in_buf g - of_int wl"
    using assms(3) by (auto simp: fbuf_eat_def split: if_splits option.splits)
  moreover have "0 < nat wl" "nat wl \<le> unat (bytes_in_buf g)"
    using assms(2) \<open>wl \<le> int (unat (bytes_in_buf g))\<close> by linarith+
  ultimately show ?thesis by simp
qed

lemma feed_zero: "fbuf_feed nd g 0 = Inr g' \<Longrightarrow> bytes_in_buf g' = bytes_in_buf g"
  by (auto simp: fbuf_feed_def Let_def split: if_splits)

termination copy_loop
  apply (relation "inv_image (less_than <*lex*> less_than <*lex*> less_than)
      (\<lambda>x. case x of
          Inl (nd, s) \<Rightarrow> (budget (err s), length (pending (in_file s)), 2 * unat (bytes_in_buf (f s)) + 1)
        | Inr (nd, s) \<Rightarrow> (budget (err s + 1) + 1, length (pending (in_file s)), 2 * unat (bytes_in_buf (f s))))")
  subgoal by (intro wf_inv_image wf_lex_prod wf_less_than)
  subgoal for ndebug s x d fi rl
    using budget_eq[of "err s"] by simp
  subgoal for ndebug s x d fi rl b' g
    using budget_eq[of "err s"] fread_length[of "unat (fbuf_space (f s))" "in_file s" d fi]
      feed_zero[of ndebug "f s\<lparr>buf := b'\<rparr>" g]
    by (cases d) auto
  subgoal by simp
  subgoal by simp
  subgoal for ndebug s x wl o' g s'
    using eat_decreases[of "f s" "out s" wl o' ndebug g] by simp
  subgoal for ndebug s x wl o' g s'
    using eat_decreases[of "f s" "out s" wl o' ndebug g] budget_le[of "err s"] by auto
  done

declare copy_loop.simps [simp del] drain_loop.simps [simp del]

text \<open>
  \<open>copy_file_to_fd\<close>: \<open>f0\<close> is the uninitialised \<open>struct fbuf f\<close> on the stack, which
  \<open>fbuf_init\<close> empties without clearing its bytes.
\<close>

definition copy_file_to_fd :: "bool \<Rightarrow> fbuf \<Rightarrow> out_fd \<Rightarrow> in_stream \<Rightarrow> copy_result" where
  "copy_file_to_fd ndebug f0 ofd inp =
     copy_loop ndebug
       \<lparr>read_bytes = 0, written_bytes = 0, err = 0, done_reading = False,
        f = fbuf_init f0, in_file = inp, out = ofd\<rparr>"

text \<open>
  The streams of a run as \<open>act_store\<close> hands them over: standard input before its first
  read, and the freshly opened core file.
\<close>

definition open_in :: "byte list \<Rightarrow> rd_event list \<Rightarrow> in_stream" where
  "open_in inp rs = \<lparr>pending = inp, eof_ind = False, rd_sched = rs\<rparr>"

definition open_out :: "wr_event list \<Rightarrow> out_fd" where
  "open_out ws = \<lparr>written = [], wr_sched = ws\<rparr>"

section \<open>Command line arguments\<close>

type_synonym uintmax_t = "64 word"

text \<open>
  What reading \<open>argv[i]\<close> gives for an argument vector of \<open>length args\<close> strings: the
  string, the null pointer that ends the vector, or a read past the end of the array.
\<close>

datatype arg = Arg string | Null_arg | Beyond

definition argv_at :: "string list \<Rightarrow> nat \<Rightarrow> arg" where
  "argv_at args i =
     (if i < length args then Arg (args ! i)
      else if i = length args then Null_arg else Beyond)"

section \<open>Parsing numbers (\<open>parse_unum\<close>)\<close>

definition isspace :: "char \<Rightarrow> bool" where
  "isspace c \<longleftrightarrow> c \<in> set [CHR '' '', CHR 0x09, CHR 0x0A, CHR 0x0B, CHR 0x0C, CHR 0x0D]"

definition digit_val :: "char \<Rightarrow> nat option" where
  "digit_val c =
     (let n = (of_char c :: nat)
      in if 48 \<le> n \<and> n \<le> 57 then Some (n - 48)
         else if 97 \<le> n \<and> n \<le> 122 then Some (n - 87)
         else if 65 \<le> n \<and> n \<le> 90 then Some (n - 55)
         else None)"

definition in_base :: "nat \<Rightarrow> char \<Rightarrow> bool" where
  "in_base b c = (case digit_val c of None \<Rightarrow> False | Some v \<Rightarrow> v < b)"

text \<open>The value of the longest run of digits of base \<open>b\<close> at the front, and what follows it.\<close>

fun digits :: "nat \<Rightarrow> nat \<Rightarrow> string \<Rightarrow> nat \<times> string" where
  "digits b acc [] = (acc, [])"
| "digits b acc (c # cs) =
     (case digit_val c of
        None \<Rightarrow> (acc, c # cs)
      | Some v \<Rightarrow> if v < b then digits b (acc * b + v) cs else (acc, c # cs))"

text \<open>
  Modelled from the C standard (7.8.2.3, 7.22.1.4), the library function is not part of
  the repository: \<open>strtoumax(n, &end, 0)\<close> skips white space, takes an optional sign,
  takes the base from the prefix (\<open>0x\<close> before a hexadecimal digit: 16, \<open>0\<close>: 8, else 10),
  and converts the longest run of digits. With no digit it returns 0 and \<open>end = n\<close>. A
  value above \<open>UINTMAX_MAX\<close> gives \<open>UINTMAX_MAX\<close> and sets \<open>errno\<close>; a minus sign negates
  the value in the unsigned type. The result is the value, the rest of the string at
  \<open>end\<close>, and whether \<open>errno\<close> was set.
\<close>

definition strtoumax0 :: "string \<Rightarrow> uintmax_t \<times> string \<times> bool" where
  "strtoumax0 n =
     (let s1 = dropWhile isspace n;
          (neg, s2) = (case s1 of
                         c # cs \<Rightarrow> if c = CHR ''-'' then (True, cs)
                                   else if c = CHR ''+'' then (False, cs) else (False, s1)
                       | [] \<Rightarrow> (False, s1));
          (b, s3) = (case s2 of
                       c0 # x # h # cs \<Rightarrow>
                         if c0 = CHR ''0'' \<and> (x = CHR ''x'' \<or> x = CHR ''X'') \<and> in_base 16 h
                         then (16, h # cs)
                         else if c0 = CHR ''0'' then (8, s2) else (10, s2)
                     | c0 # cs \<Rightarrow> if c0 = CHR ''0'' then (8, s2) else (10, s2)
                     | [] \<Rightarrow> (10, s2))
      in case s3 of
           [] \<Rightarrow> (0, n, False)
         | c # cs \<Rightarrow>
             if \<not> in_base b c then (0, n, False)
             else let (v, rest) = digits b 0 s3
                  in if v > 2 ^ 64 - 1 then (- 1, rest, True)
                     else if neg then (- of_nat v, rest, False)
                     else (of_nat v, rest, False))"

text \<open>\<open>parse_unum\<close>: the value, or the diagnostic it prints before \<open>exit(EXIT_FAILURE)\<close>.\<close>

definition parse_unum :: "string \<Rightarrow> string \<Rightarrow> fault + uintmax_t" where
  "parse_unum n name =
     (let (v, end, errno) = strtoumax0 n
      in if v = - 1 \<and> errno
         then Inl (Exit_failure (''Error: failure parsing '' @ name @ '', '' @ n))
         else if end \<noteq> []
         then Inl (Exit_failure (''Error: trailing characters in '' @ name @ '', '' @ n))
         else Inr v)"

section \<open>Actions\<close>

datatype act = ACT_NONE | ACT_SETUP | ACT_STORE | ACT_INFO | ACT_GDB | ACT_LIST

text \<open>\<open>action[0]\<close> and \<open>action[1]\<close> of a C string: the terminating 0 where the string ends.\<close>

definition parse_act :: "string \<Rightarrow> act" where
  "parse_act action =
     (case action of
        [] \<Rightarrow> ACT_NONE
      | c0 # r \<Rightarrow>
          if c0 = CHR ''s'' then
            (case r of
               [] \<Rightarrow> ACT_NONE
             | c1 # _ \<Rightarrow> if c1 = CHR ''e'' then ACT_SETUP
                         else if c1 = CHR ''t'' then ACT_STORE else ACT_NONE)
          else if c0 = CHR ''g'' then ACT_GDB
          else if c0 = CHR ''l'' then ACT_LIST
          else if c0 = CHR ''i'' then ACT_INFO
          else ACT_NONE)"

section \<open>The file system as the store action sees it\<close>

datatype errno = EEXIST | Errno nat

datatype oflag = O_CREAT | O_DIRECTORY | O_RDWR | O_WRONLY

text \<open>The system calls that touch the file system, in the order the program makes them.\<close>

datatype fs_event =
    Ev_mkdir string nat
  | Ev_opendir string
  | Ev_openat string "oflag list" nat
  | Ev_write string "byte list"
  | Ev_dprintf string string
  | Ev_close string

text \<open>
  \<open>dirs\<close> are the directories that exist, by the path they were created under.
  \<open>mkdir_refused\<close> says what \<open>mkdir\<close> does on a path that does not exist yet: create it
  (\<open>None\<close>) or fail with an error number. \<open>open_refused\<close> are the names on which
  \<open>opendir\<close> and \<open>openat\<close> fail whatever is asked. \<open>trace\<close> collects the calls made.
\<close>

record world =
  dirs :: "string set"
  mkdir_refused :: "string \<Rightarrow> errno option"
  open_refused :: "string set"
  trace :: "fs_event list"

definition mkdir :: "string \<Rightarrow> nat \<Rightarrow> world \<Rightarrow> errno option \<times> world" where
  "mkdir path mode w =
     (let w' = w\<lparr>trace := trace w @ [Ev_mkdir path mode]\<rparr>
      in if path \<in> dirs w then (Some EEXIST, w')
         else case mkdir_refused w path of
                Some e \<Rightarrow> (Some e, w')
              | None \<Rightarrow> (None, w'\<lparr>dirs := insert path (dirs w)\<rparr>))"

text \<open>\<open>opendir\<close> fails on what the environment refuses and on what is not a directory.\<close>

definition opendir :: "string \<Rightarrow> world \<Rightarrow> bool \<times> world" where
  "opendir path w =
     (path \<notin> open_refused w \<and> path \<in> dirs w, w\<lparr>trace := trace w @ [Ev_opendir path]\<rparr>)"

text \<open>
  Modelled from POSIX and open(2), the system call is not part of the repository. Besides
  what the environment refuses, \<open>openat\<close> fails
  \<^item> with \<open>O_CREAT\<close> and \<open>O_DIRECTORY\<close> together: this pair never yields a descriptor
    (Linux 6.4 and later answer \<open>EINVAL\<close>; earlier kernels create a regular file where
    nothing exists and answer \<open>ENOTDIR\<close>, and \<open>EISDIR\<close> on a directory);
  \<^item> on a directory opened for writing (\<open>EISDIR\<close>);
  \<^item> with \<open>O_DIRECTORY\<close> on what is not a directory (\<open>ENOTDIR\<close>, \<open>ENOENT\<close>).
  No flag of the store action makes it create a directory. Regular files are not tracked.
\<close>

definition openat :: "string \<Rightarrow> oflag list \<Rightarrow> nat \<Rightarrow> world \<Rightarrow> bool \<times> world" where
  "openat path flags mode w =
     (let w' = w\<lparr>trace := trace w @ [Ev_openat path flags mode]\<rparr>
      in if path \<in> open_refused w then (False, w')
         else if O_CREAT \<in> set flags \<and> O_DIRECTORY \<in> set flags then (False, w')
         else if path \<in> dirs w \<and> (O_RDWR \<in> set flags \<or> O_WRONLY \<in> set flags) then (False, w')
         else if O_DIRECTORY \<in> set flags \<and> path \<notin> dirs w then (False, w')
         else (True, w'))"

definition log_event :: "fs_event \<Rightarrow> world \<Rightarrow> world" where
  "log_event e w = w\<lparr>trace := trace w @ [e]\<rparr>"

text \<open>A C octal constant from its digits: \<open>octal [7, 5, 5]\<close> is \<open>0755\<close>.\<close>

definition octal :: "nat list \<Rightarrow> nat" where
  "octal ds = foldl (\<lambda>a d. a * 8 + d) 0 ds"

section \<open>Creating the storage area (the \<open>mkdir\<close> loop of \<open>act_store\<close>)\<close>

text \<open>\<open>strchr(dir + p, c)\<close> as an index into \<open>dir\<close>; \<open>None\<close> is the null pointer.\<close>

definition strchr_from :: "string \<Rightarrow> nat \<Rightarrow> char \<Rightarrow> nat option" where
  "strchr_from s p c =
     (let k = length (takeWhile (\<lambda>x. x \<noteq> c) (drop p s))
      in if p + k < length s then Some (p + k) else None)"

lemma strchr_from_bounds: "strchr_from s p c = Some j \<Longrightarrow> p \<le> j \<and> j < length s"
  by (auto simp: strchr_from_def Let_def split: if_splits)

text \<open>
  One pass of the loop with \<open>p\<close> at index \<open>p\<close>: the separator found is overwritten by 0 for
  the call, so \<open>mkdir\<close> sees the prefix before it; with no separator left it sees all of
  \<open>dir\<close>, and the loop ends.
\<close>

function mkdir_loop :: "string \<Rightarrow> nat \<Rightarrow> world \<Rightarrow> (fault + unit) \<times> world" where
  "mkdir_loop dir p w =
     (let q = strchr_from dir p CHR ''/'';
          target = (case q of Some j \<Rightarrow> take j dir | None \<Rightarrow> dir);
          (r, w') = mkdir target (octal [7, 7, 7]) w
      in if r \<noteq> None \<and> r \<noteq> Some EEXIST
         then (Inl (Exit_failure (''Error: could not create path '' @ target)), w')
         else case q of
                None \<Rightarrow> (Inr (), w')
              | Some j \<Rightarrow> mkdir_loop dir (j + 1) w')"
  by pat_completeness auto
termination mkdir_loop
  by (relation "measure (\<lambda>(dir, p, w). length dir - p)")
     (auto dest: strchr_from_bounds[OF sym])

declare mkdir_loop.simps [simp del]

section \<open>Formatting\<close>

text \<open>\<open>%ju\<close> and \<open>%u\<close>: an unsigned number in decimal.\<close>

fun dec :: "nat \<Rightarrow> string" where
  "dec n = (if n < 10 then [''0123456789'' ! n]
            else dec (n div 10) @ [''0123456789'' ! (n mod 10)])"

declare dec.simps [simp del]

text \<open>
  Modelled from the C standard and from glibc, the library functions are not part of the
  repository. \<open>gmtime_r\<close> breaks a \<open>time_t\<close> down into UTC calendar time: the date of a
  day number follows the Gregorian calendar with day 0 = 1970-01-01, the time of day is
  the rest in hours, minutes and seconds. It fails (null pointer, \<open>EOVERFLOW\<close>) where the
  year minus 1900 does not fit the \<open>int\<close> field \<open>tm_year\<close>, and then leaves its \<open>struct tm\<close>
  alone. Of \<open>struct tm\<close> the fields that the format of the store action reads are kept.
\<close>

record tm =
  tm_sec :: int
  tm_min :: int
  tm_hour :: int
  tm_mday :: int
  tm_mon :: int
  tm_year :: int

definition civil_from_days :: "int \<Rightarrow> int \<times> int \<times> int" where
  "civil_from_days z0 =
     (let z = z0 + 719468;
          era = z div 146097;
          doe = z mod 146097;
          yoe = (doe - doe div 1460 + doe div 36524 - doe div 146096) div 365;
          doy = doe - (365 * yoe + yoe div 4 - yoe div 100);
          mp = (5 * doy + 2) div 153;
          d = doy - (153 * mp + 2) div 5 + 1;
          m = (if mp < 10 then mp + 3 else mp - 9);
          y = yoe + era * 400 + (if m \<le> 2 then 1 else 0)
      in (y, m, d))"

definition gmtime_r :: "int \<Rightarrow> tm option" where
  "gmtime_r t =
     (let (y, m, d) = civil_from_days (t div 86400);
          s = t mod 86400
      in if - (2 ^ 31) \<le> y - 1900 \<and> y - 1900 < 2 ^ 31
         then Some \<lparr>tm_sec = s mod 60, tm_min = s mod 3600 div 60, tm_hour = s div 3600,
                    tm_mday = d, tm_mon = m - 1, tm_year = y - 1900\<rparr>
         else None)"

text \<open>
  \<open>strftime\<close> with \<open>"%F_%H:%M:%S"\<close>, where \<open>%F\<close> is \<open>%Y-%m-%d\<close>: glibc adds 1900 to
  \<open>tm_year\<close> in \<open>int\<close> and writes the year without padding, with a minus sign where it is
  negative; month, day, hour, minute and second take two digits each.
\<close>

definition signed_dec :: "int \<Rightarrow> string" where
  "signed_dec v = (if v < 0 then ''-'' @ dec (nat (- v)) else dec (nat v))"

definition two_digits :: "int \<Rightarrow> string" where
  "two_digits n = [''0123456789'' ! nat (n div 10), ''0123456789'' ! nat (n mod 10)]"

definition strftime_stamp :: "tm \<Rightarrow> string" where
  "strftime_stamp t =
     signed_dec (sint (of_int (tm_year t + 1900) :: 32 word)) @ ''-'' @
     two_digits (tm_mon t + 1) @ ''-'' @ two_digits (tm_mday t) @ ''_'' @
     two_digits (tm_hour t) @ '':'' @ two_digits (tm_min t) @ '':'' @ two_digits (tm_sec t)"

text \<open>
  What a run is given besides its arguments and the file system.
  \<^item> \<open>assertions_off\<close>: the program was built with \<open>NDEBUG\<close>.
  \<^item> \<open>PATH_MAX\<close>: the platform's constant, the size of \<open>path_buf\<close>.
  \<^item> \<open>fbuf_junk\<close>: the uninitialised \<open>struct fbuf\<close> of the copier.
  \<^item> \<open>stdin_stream\<close>, \<open>core_writes\<close>: the crash image on standard input and how
    \<open>write\<close> on the core file behaves.
  \<^item> \<open>act_setup_outcome\<close>: what \<open>act_setup\<close> does; it is not part of the store action.
\<close>

record env =
  assertions_off :: bool
  PATH_MAX :: nat
  fbuf_junk :: fbuf
  stdin_stream :: in_stream
  core_writes :: "wr_event list"
  act_setup_outcome :: "fault + int"

text \<open>
  The leaf name. The result of \<open>gmtime_r\<close> is not looked at: where it fails, \<open>strftime\<close>
  formats a \<open>struct tm\<close> that was never set. \<open>strftime\<close> returns 0 when the result and its
  terminating 0 do not fit in \<open>path_buf\<close>; \<open>snprintf\<close> returns the length the suffix
  needs, whatever it could write.
\<close>

definition format_leaf :: "env \<Rightarrow> uintmax_t \<Rightarrow> uintmax_t \<Rightarrow> uintmax_t \<Rightarrow> fault + string" where
  "format_leaf e v_ts v_pid v_uid =
     (let ts_time = sint v_ts
      in case gmtime_r ts_time of
           None \<Rightarrow> Inl Undefined_behaviour
         | Some tmv \<Rightarrow>
             let date = strftime_stamp tmv;
                 b = (if length date + 1 \<le> PATH_MAX e then length date else 0)
             in if b = 0 then Inl (Exit_failure ''Error: strftime failed'')
                else
                  let suffix = ''.pid='' @ dec (unat v_pid) @ ''.uid='' @ dec (unat v_uid);
                      r = length suffix
                  in if r > PATH_MAX e - b - 1
                     then Inl (Exit_failure
                            (''Error: formatted storage path too long (needed '' @ dec r @ '' bytes)''))
                     else Inr (date @ suffix))"

section \<open>The store action (\<open>act_store\<close>)\<close>

text \<open>\<open>parse_unum(argv[i], name)\<close>: a null or stray pointer handed to \<open>strtoumax\<close> is undefined.\<close>

definition parse_arg :: "arg \<Rightarrow> string \<Rightarrow> fault + uintmax_t" where
  "parse_arg a name = (case a of Arg s \<Rightarrow> parse_unum s name | _ \<Rightarrow> Inl Undefined_behaviour)"

record crash_event =
  pid :: uintmax_t
  uid :: uintmax_t
  gid :: uintmax_t
  sig :: uintmax_t
  ts :: uintmax_t
  comm :: arg
  path :: arg

text \<open>The checks on the argument count and on \<open>dir\<close>; both diagnostics can be printed.\<close>

definition store_arg_errors :: "nat \<Rightarrow> string \<Rightarrow> string list \<Rightarrow> string list" where
  "store_arg_errors optind dir argv =
     (let ct = int (length argv) - int optind
      in (if ct \<noteq> 7 \<and> ct \<noteq> 8 then [''Error: store requires 7 or 8 arguments''] else []) @
         (if (case dir of [] \<Rightarrow> True | c # _ \<Rightarrow> c \<noteq> CHR ''/'')
          then [''Error: store requires an absolute path, but got '' @ dir] else []))"

text \<open>
  The reads of \<open>argv[optind + 1]\<close> to \<open>argv[optind + 8]\<close>, in the order of the
  declarations. Reading the pointer \<open>argv[optind + 8]\<close> past the terminating null pointer
  of the vector is undefined.
\<close>

definition read_crash_event :: "nat \<Rightarrow> string list \<Rightarrow> fault + crash_event" where
  "read_crash_event optind argv =
     (case parse_arg (argv_at argv (optind + 1)) ''pid'' of Inl x \<Rightarrow> Inl x | Inr v_pid \<Rightarrow>
     (case parse_arg (argv_at argv (optind + 2)) ''uid'' of Inl x \<Rightarrow> Inl x | Inr v_uid \<Rightarrow>
     (case parse_arg (argv_at argv (optind + 3)) ''gid'' of Inl x \<Rightarrow> Inl x | Inr v_gid \<Rightarrow>
     (case parse_arg (argv_at argv (optind + 4)) ''signal'' of Inl x \<Rightarrow> Inl x | Inr v_sig \<Rightarrow>
     (case parse_arg (argv_at argv (optind + 5)) ''timestamp'' of Inl x \<Rightarrow> Inl x | Inr v_ts \<Rightarrow>
        if argv_at argv (optind + 7) = Beyond \<or> argv_at argv (optind + 8) = Beyond
        then Inl Undefined_behaviour
        else Inr \<lparr>pid = v_pid, uid = v_uid, gid = v_gid, sig = v_sig, ts = v_ts,
                  comm = argv_at argv (optind + 7), path = argv_at argv (optind + 8)\<rparr>)))))"

text \<open>The text \<open>dprintf\<close> writes to \<open>info.txt\<close>; \<open>%s\<close> of a null pointer is undefined.\<close>

definition info_text :: "crash_event \<Rightarrow> string option" where
  "info_text ev =
     (case (comm ev, path ev) of
        (Arg c, Arg p) \<Rightarrow>
          Some (''pid: '' @ dec (unat (pid ev)) @ [CHR 0x0A] @
                ''uid: '' @ dec (unat (uid ev)) @ [CHR 0x0A] @
                ''gid: '' @ dec (unat (gid ev)) @ [CHR 0x0A] @
                ''signal: '' @ dec (unat (sig ev)) @ [CHR 0x0A] @
                ''timestamp: '' @ dec (unat (ts ev)) @ [CHR 0x0A] @
                ''comm: '' @ c @ [CHR 0x0A] @
                ''path: '' @ p @ [CHR 0x0A])
      | _ \<Rightarrow> None)"

definition join :: "string \<Rightarrow> string \<Rightarrow> string" where
  "join d n = d @ ''/'' @ n"

text \<open>
  Opening the per-crash directory under \<open>dir\<close>. For \<open>openat(fd, name, flags, mode)\<close> with
  \<open>fd\<close> open on a directory, the event and the failure are by the joined path.
\<close>

definition open_store_dir :: "string \<Rightarrow> string \<Rightarrow> world \<Rightarrow> (fault + unit) \<times> world" where
  "open_store_dir dir path_buf w =
     (case openat (join dir path_buf) [O_CREAT, O_DIRECTORY, O_RDWR] (octal [7, 5, 5]) w of
        (False, w1) \<Rightarrow>
          (Inl (Exit_failure (''Error: could not open storage dir '' @ path_buf)), w1)
      | (True, w1) \<Rightarrow> (Inr (), w1))"

text \<open>Opening \<open>core\<close>, copying standard input into it, closing it.\<close>

definition store_core :: "env \<Rightarrow> string \<Rightarrow> world \<Rightarrow> (fault + unit) \<times> world" where
  "store_core e store w =
     (case openat (join store ''core'') [O_CREAT, O_WRONLY] (octal [6, 4, 4]) w of
        (False, w1) \<Rightarrow> (Inl (Exit_failure ''Error: could not open core file''), w1)
      | (True, w1) \<Rightarrow>
          (let (res, cs) = copy_file_to_fd (assertions_off e) (fbuf_junk e)
                             (open_out (core_writes e)) (stdin_stream e);
               w2 = log_event (Ev_write (join store ''core'') (written (out cs))) w1
           in (case res of
                 Inl x \<Rightarrow> (Inl x, w2)
               | Inr ret \<Rightarrow>
                   (let r = sint (of_int ret :: 32 word)
                    in if r < 0
                       then (Inl (Exit_failure ''Error: could not read/write core file''), w2)
                       else (Inr (), log_event (Ev_close (join store ''core'')) w2)))))"

text \<open>Opening \<open>info.txt\<close>, writing the record, closing it.\<close>

definition store_info :: "crash_event \<Rightarrow> string \<Rightarrow> world \<Rightarrow> (fault + unit) \<times> world" where
  "store_info ev store w =
     (case openat (join store ''info.txt'') [O_CREAT, O_WRONLY] (octal [6, 4, 4]) w of
        (False, w1) \<Rightarrow> (Inl (Exit_failure ''Error: could not open info.txt file''), w1)
      | (True, w1) \<Rightarrow>
          (case info_text ev of
             None \<Rightarrow> (Inl Undefined_behaviour, w1)
           | Some txt \<Rightarrow>
               (Inr (), log_event (Ev_close (join store ''info.txt''))
                          (log_event (Ev_dprintf (join store ''info.txt'') txt) w1))))"

definition act_store :: "env \<Rightarrow> nat \<Rightarrow> string \<Rightarrow> string list \<Rightarrow> world \<Rightarrow> (fault + int) \<times> world" where
  "act_store e optind dir argv w =
     (let errs = store_arg_errors optind dir argv
      in if errs \<noteq> [] then (Inl (Exit_failure (concat errs)), w)
         else
           (case read_crash_event optind argv of
              Inl x \<Rightarrow> (Inl x, w)
            | Inr ev \<Rightarrow>
           (case mkdir_loop dir 1 w of
              (Inl x, w1) \<Rightarrow> (Inl x, w1)
            | (Inr u1, w1) \<Rightarrow>
           (case opendir dir w1 of
              (False, w2) \<Rightarrow>
                (Inl (Exit_failure (''Error: failed to open storage dir '' @ dir)), w2)
            | (True, w2) \<Rightarrow>
           (case format_leaf e (ts ev) (pid ev) (uid ev) of
              Inl x \<Rightarrow> (Inl x, w2)
            | Inr path_buf \<Rightarrow>
           (case open_store_dir dir path_buf w2 of
              (Inl x, w3) \<Rightarrow> (Inl x, w3)
            | (Inr u3, w3) \<Rightarrow>
           (case store_core e (join dir path_buf) w3 of
              (Inl x, w4) \<Rightarrow> (Inl x, w4)
            | (Inr u4, w4) \<Rightarrow>
           (case store_info ev (join dir path_buf) w4 of
              (Inl x, w5) \<Rightarrow> (Inl x, w5)
            | (Inr u5, w5) \<Rightarrow> (Inr 0, w5)))))))))"

section \<open>\<open>main\<close> after the option loop\<close>

text \<open>
  \<open>getopt\<close> belongs to the C library. What its loop leaves behind is a parameter:
  \<open>optind\<close> (the index of the first argument that is not an option, at least 1),
  \<open>dir\<close> (the argument of the last \<open>-d\<close>, else \<open>default_path\<close>) and the number of errors
  counted. A command line without options leaves \<open>no_options\<close>.
\<close>

definition default_path :: string where
  "default_path = ''/var/lib/systemd/coredump''"

record getopt_done =
  go_optind :: nat
  go_dir :: string
  go_errors :: nat

definition no_options :: getopt_done where
  "no_options = \<lparr>go_optind = 1, go_dir = default_path, go_errors = 0\<rparr>"

definition main :: "env \<Rightarrow> getopt_done \<Rightarrow> string list \<Rightarrow> world \<Rightarrow> (fault + int) \<times> world" where
  "main e g argv w =
     (if length argv = go_optind g
      then (Inl (Exit_failure ''Error: an action is required but none was found''), w)
      else
        case argv_at argv (go_optind g) of
          Arg action \<Rightarrow>
            let act = parse_act action;
                err = go_errors g + (if act = ACT_NONE then 1 else 0)
            in if err \<noteq> 0 then (Inl (Exit_failure ''Usage''), w)
               else
                 (case act of
                    ACT_STORE \<Rightarrow> act_store e (go_optind g) (go_dir g) (drop (go_optind g + 1) argv) w
                  | ACT_SETUP \<Rightarrow> (act_setup_outcome e, w)
                  | _ \<Rightarrow> (Inl (Exit_failure (''action '' @ action @ '' is unimplimented'')), w))
        | _ \<Rightarrow> (Inl Undefined_behaviour, w))"

text \<open>A run for the examples: an \<open>NDEBUG\<close> build on Linux, an empty crash image.\<close>

definition example_env :: env where
  "example_env =
     \<lparr>assertions_off = True, PATH_MAX = 4096,
      fbuf_junk = \<lparr>bytes_in_buf = 0, buf = replicate 4096 0\<rparr>,
      stdin_stream = open_in [] [], core_writes = [], act_setup_outcome = Inr 0\<rparr>"

definition example_world :: world where
  "example_world = \<lparr>dirs = {''/''}, mkdir_refused = (\<lambda>p. None), open_refused = {}, trace = []\<rparr>"

section \<open>Notions used in the statements\<close>

text \<open>
  The buffers the callers can reach from \<open>fbuf_init\<close>: by writing into the free space
  (as \<open>fread\<close> does), by \<open>fbuf_feed\<close> with at most \<open>fbuf_space\<close> bytes, and by
  \<open>fbuf_eat\<close> with at most \<open>fbuf_data\<close> bytes, each where the operation returns.
\<close>

inductive reachable :: "bool \<Rightarrow> fbuf \<Rightarrow> fbuf \<Rightarrow> bool" for ndebug :: bool and f0 :: fbuf where
  r_init: "reachable ndebug f0 (fbuf_init f0)"
| r_fill: "reachable ndebug f0 g \<Longrightarrow> of_nat (length d) \<le> fbuf_space g \<Longrightarrow> length d \<le> unat buf_size \<Longrightarrow>
           store_at (buf g) (fbuf_space_ptr g) d = Some b' \<Longrightarrow>
           reachable ndebug f0 (g\<lparr>buf := b'\<rparr>)"
| r_feed: "reachable ndebug f0 g \<Longrightarrow> n \<le> fbuf_space g \<Longrightarrow>
           fbuf_feed ndebug g n = Inr g' \<Longrightarrow> reachable ndebug f0 g'"
| r_eat: "reachable ndebug f0 g \<Longrightarrow> n \<le> fbuf_data g \<Longrightarrow>
           fbuf_eat ndebug g n = Inr g' \<Longrightarrow> reachable ndebug f0 g'"

text \<open>
  A well-formed buffer: the array has its 4096 bytes and the occupancy is within it.
\<close>

definition fbuf_ok :: "fbuf \<Rightarrow> bool" where
  "fbuf_ok g \<longleftrightarrow> length (buf g) = unat buf_size \<and> bytes_in_buf g \<le> buf_size"

text \<open>
  The invariant of the copier for the input \<open>inp\<close>: what was written, what the buffer
  holds and what is still to be read make up the input, in this order, and the two counters
  agree with it. \<open>copy_post\<close> is what every result satisfies: the output is a prefix of the
  input, and all of it when the result is not negative.
\<close>

definition copy_inv :: "byte list \<Rightarrow> copy_state \<Rightarrow> bool" where
  "copy_inv inp s \<longleftrightarrow>
     fbuf_ok (f s) \<and>
     written (out s) @ fbuf_contents (f s) @ pending (in_file s) = inp \<and>
     written_bytes s = of_nat (length (written (out s))) \<and>
     read_bytes s = of_nat (length (written (out s)) + length (fbuf_contents (f s))) \<and>
     (eof_ind (in_file s) \<longrightarrow> pending (in_file s) = []) \<and>
     (done_reading s \<longrightarrow> eof_ind (in_file s))"

definition copy_post :: "byte list \<Rightarrow> copy_result \<Rightarrow> bool" where
  "copy_post inp r \<longleftrightarrow>
     (\<exists>rest. inp = written (out (snd r)) @ rest) \<and>
     (\<forall>v. fst r = Inr v \<and> 0 \<le> v \<longrightarrow>
        written (out (snd r)) = inp \<and> v = sint (of_nat (length inp) :: size_t))"

text \<open>A run in which no call of fread or write fails.\<close>

definition clean :: "copy_state \<Rightarrow> bool" where
  "clean s \<longleftrightarrow> err s = 0 \<and> Rd_fail \<notin> set (rd_sched (in_file s)) \<and>
     Wr_zero \<notin> set (wr_sched (out s)) \<and> Wr_fail \<notin> set (wr_sched (out s))"

text \<open>
  The prefixes of \<open>dir\<close> that end before a separator at index \<open>p\<close> or later, shortest first,
  and then \<open>dir\<close> itself.
\<close>

definition dir_prefixes_from :: "string \<Rightarrow> nat \<Rightarrow> string list" where
  "dir_prefixes_from dir p =
     map (\<lambda>j. take j dir) (filter (\<lambda>j. dir ! j = CHR ''/'') [p..<length dir]) @ [dir]"

definition dir_prefixes :: "string \<Rightarrow> string list" where
  "dir_prefixes dir = dir_prefixes_from dir 1"

text \<open>
  What one run of the \<open>mkdir\<close> loop from index \<open>p\<close> does. It leaves the oracle alone and
  removes no directory. It calls \<open>mkdir\<close> with mode 0777 on the prefixes in order, the one
  at index \<open>k\<close> being the last: every prefix before it exists afterwards or was reported as
  existing. A run that succeeds has reached the last prefix, and that one exists or was
  reported as existing as well. A run that fails was refused the prefix at \<open>k\<close> with
  another error, has not created it, and exits with the diagnostic for it.
\<close>

definition walk_ok :: "string \<Rightarrow> nat \<Rightarrow> world \<Rightarrow> (fault + unit) \<times> world \<Rightarrow> bool" where
  "walk_ok dir p w res \<longleftrightarrow>
     mkdir_refused (snd res) = mkdir_refused w \<and> dirs w \<subseteq> dirs (snd res) \<and>
     (\<exists>k < length (dir_prefixes_from dir p).
        trace (snd res) =
          trace w @ map (\<lambda>q. Ev_mkdir q (octal [7, 7, 7])) (take (Suc k) (dir_prefixes_from dir p)) \<and>
        (\<forall>q \<in> set (take k (dir_prefixes_from dir p)).
           q \<in> dirs (snd res) \<or> mkdir_refused w q = Some EEXIST) \<and>
        (fst res = Inr () \<longrightarrow>
           Suc k = length (dir_prefixes_from dir p) \<and>
           (dir_prefixes_from dir p ! k \<in> dirs (snd res) \<or>
            mkdir_refused w (dir_prefixes_from dir p ! k) = Some EEXIST)) \<and>
        (\<forall>x. fst res = Inl x \<longrightarrow>
           dir_prefixes_from dir p ! k \<notin> dirs (snd res) \<and>
           (\<exists>e. e \<noteq> EEXIST \<and> mkdir_refused w (dir_prefixes_from dir p ! k) = Some e) \<and>
           x = Exit_failure (''Error: could not create path '' @ dir_prefixes_from dir p ! k)))"

section \<open>The staging buffer\<close>

lemma unat_buf_size [simp]: "unat buf_size = 4096"
  by (simp add: buf_size_def)

lemma space_plus_data: "fbuf_space g + fbuf_data g = buf_size"
  by (simp add: fbuf_space_def fbuf_data_def)

lemma unat_space: "bytes_in_buf g \<le> buf_size \<Longrightarrow> unat (fbuf_space g) = 4096 - unat (bytes_in_buf g)"
  by (simp add: fbuf_space_def unat_sub)

lemma store_at_length: "store_at b off d = Some b' \<Longrightarrow> length b' = length b"
  by (auto simp: store_at_def split: if_splits)

lemma feed_ok:
  assumes "fbuf_ok g" "n \<le> fbuf_space g" "fbuf_feed nd g n = Inr g'"
  shows "fbuf_ok g'" "unat (bytes_in_buf g') = unat (bytes_in_buf g) + unat n" "buf g' = buf g"
proof -
  have le: "bytes_in_buf g \<le> buf_size" using assms(1) by (simp add: fbuf_ok_def)
  have n: "unat n \<le> 4096 - unat (bytes_in_buf g)"
    using assms(2) unat_space[OF le] by (simp add: word_le_nat_alt)
  have c: "unat (bytes_in_buf g) \<le> 4096" using le by (simp add: word_le_nat_alt)
  have g': "g' = g\<lparr>bytes_in_buf := bytes_in_buf g + n\<rparr>"
    using assms(3) by (auto simp: fbuf_feed_def Let_def split: if_splits)
  have u: "unat (bytes_in_buf g + n) = unat (bytes_in_buf g) + unat n"
    using n c by (simp add: unat_word_ariths)
  show "unat (bytes_in_buf g') = unat (bytes_in_buf g) + unat n" using g' u by simp
  show "buf g' = buf g" using g' by simp
  show "fbuf_ok g'" using assms(1) g' u n c by (simp add: fbuf_ok_def word_le_nat_alt)
qed

lemma eat_ok:
  assumes "fbuf_ok g" "n \<le> fbuf_data g"
  shows "\<exists>g'. fbuf_eat nd g n = Inr g' \<and> fbuf_ok g' \<and>
           fbuf_data g' = fbuf_data g - n \<and>
           fbuf_contents g' = drop (unat n) (fbuf_contents g)"
proof -
  have le: "unat (bytes_in_buf g) \<le> 4096" and len: "length (buf g) = 4096"
    using assms(1) by (simp_all add: fbuf_ok_def word_le_nat_alt)
  have n: "n \<le> bytes_in_buf g" using assms(2) by (simp add: fbuf_data_def)
  then have u: "unat (bytes_in_buf g - n) = unat (bytes_in_buf g) - unat n"
    by (simp add: unat_sub)
  have nn: "unat n \<le> unat (bytes_in_buf g)" using n by (simp add: word_le_nat_alt)
  show ?thesis
    using le len n u nn
    by (simp add: fbuf_eat_def memmove_buf_def fbuf_ok_def fbuf_data_def fbuf_contents_def
        fbuf_data_ptr_def word_le_nat_alt drop_take)
qed

lemma reachable_ok:
  assumes "length (buf f0) = unat buf_size" "reachable nd f0 g"
  shows "fbuf_ok g"
  using assms(2)
proof induction
  case r_init
  then show ?case using assms(1) by (simp add: fbuf_ok_def fbuf_init_def)
next
  case (r_fill g d b')
  then show ?case by (auto simp: fbuf_ok_def dest: store_at_length)
next
  case (r_feed g n g')
  then show ?case using feed_ok(1) by blast
next
  case (r_eat g n g')
  then show ?case using eat_ok[of g n nd] by auto
qed

text \<open>
  Claim C10. For every buffer reachable from \<open>fbuf_init\<close> by feed and eat operations
  within their preconditions (on an array of 4096 bytes), \<open>fbuf_space\<close> plus \<open>fbuf_data\<close>
  is the capacity 4096, \<open>fbuf_data\<close> is at most 4096, and \<open>fbuf_eat\<close> of \<open>n\<close> buffered
  bytes returns, takes exactly the first \<open>n\<close> bytes away and keeps the others in order.
\<close>

theorem fbuf_invariant:
  assumes "length (buf f0) = unat buf_size" and "reachable ndebug f0 g"
  shows "fbuf_space g + fbuf_data g = buf_size \<and> fbuf_data g \<le> buf_size \<and>
    (\<forall>n. n \<le> fbuf_data g \<longrightarrow>
           (\<exists>g'. fbuf_eat ndebug g n = Inr g' \<and> fbuf_data g' = fbuf_data g - n \<and>
                 fbuf_contents g' = drop (unat n) (fbuf_contents g)))"
proof -
  have ok: "fbuf_ok g" using assms by (rule reachable_ok)
  have "fbuf_data g \<le> buf_size" using ok by (simp add: fbuf_ok_def fbuf_data_def)
  moreover have "\<forall>n. n \<le> fbuf_data g \<longrightarrow>
           (\<exists>g'. fbuf_eat ndebug g n = Inr g' \<and> fbuf_data g' = fbuf_data g - n \<and>
                 fbuf_contents g' = drop (unat n) (fbuf_contents g))"
    using eat_ok[OF ok] by blast
  ultimately show ?thesis using space_plus_data by blast
qed

text \<open>
  An instance: three bytes written and fed into an empty buffer, one byte eaten.
\<close>

theorem fbuf_invariant_witness:
  "reachable True \<lparr>bytes_in_buf = 7, buf = replicate 4096 0\<rparr>
      \<lparr>bytes_in_buf = 3, buf = [1, 2, 3] @ replicate 4093 0\<rparr> \<and>
   fbuf_space \<lparr>bytes_in_buf = 3, buf = [1, 2, 3] @ replicate 4093 0\<rparr> + 3 = buf_size \<and>
   (\<exists>g'. fbuf_eat True \<lparr>bytes_in_buf = 3, buf = [1, 2, 3] @ replicate 4093 0\<rparr> 1 = Inr g' \<and>
      fbuf_data g' = 2 \<and> fbuf_contents g' = [2, 3])"
proof -
  let ?f0 = "\<lparr>bytes_in_buf = 7, buf = replicate 4096 (0 :: byte)\<rparr>"
  let ?g1 = "\<lparr>bytes_in_buf = 0, buf = [1, 2, 3] @ replicate 4093 (0 :: byte)\<rparr>"
  let ?g = "\<lparr>bytes_in_buf = 3, buf = [1, 2, 3] @ replicate 4093 (0 :: byte)\<rparr>"
  have len: "length (buf ?f0) = unat buf_size" by simp
  have r0: "reachable True ?f0 (fbuf_init ?f0)" by (rule r_init)
  have "reachable True ?f0 ((fbuf_init ?f0)\<lparr>buf := [1, 2, 3] @ replicate 4093 0\<rparr>)"
    by (rule r_fill[OF r0, of "[1, 2, 3]"])
      (simp_all add: fbuf_space_def fbuf_init_def buf_size_def store_at_def fbuf_space_ptr_def)
  then have r1: "reachable True ?f0 ?g1" by (simp add: fbuf_init_def)
  have r2: "reachable True ?f0 ?g"
    by (rule r_feed[OF r1, of 3]) (simp_all add: fbuf_space_def buf_size_def fbuf_feed_def)
  have c: "fbuf_contents ?g = [1, 2, 3]" "fbuf_data ?g = 3"
    by (simp_all add: fbuf_contents_def fbuf_data_def fbuf_data_ptr_def)
  have "(1 :: size_t) \<le> fbuf_data ?g \<longrightarrow>
      (\<exists>g'. fbuf_eat True ?g 1 = Inr g' \<and> fbuf_data g' = fbuf_data ?g - 1 \<and>
         fbuf_contents g' = drop (unat (1 :: size_t)) (fbuf_contents ?g))"
    using fbuf_invariant[OF len r2] by blast
  then have e: "\<exists>g'. fbuf_eat True ?g 1 = Inr g' \<and> fbuf_data g' = 2 \<and> fbuf_contents g' = [2, 3]"
    unfolding c by simp
  have "fbuf_space ?g + 3 = buf_size"
    using fbuf_invariant[OF len r2] unfolding c by blast
  with r2 e show ?thesis by blast
qed

text \<open>
  The assertion of \<open>fbuf_feed\<close> compares the new occupancy with \<open>n\<close>. It holds exactly
  when the addition wraps around, so it fails on every feed that fits the buffer.
\<close>

lemma feed_assert_wraps:
  assumes "fbuf_feed False g n = Inr g'"
  shows "2 ^ 64 \<le> unat n + unat (bytes_in_buf g)"
proof -
  have "bytes_in_buf g + n < n"
    using assms by (simp add: fbuf_feed_def Let_def split: if_splits)
  then have "n + bytes_in_buf g < n"
    by (simp only: add.commute[of n "bytes_in_buf g"])
  then have "\<not> n \<le> n + bytes_in_buf g"
    by (simp only: not_le)
  then have "\<not> unat n + unat (bytes_in_buf g) < 2 ^ LENGTH(64)"
    using no_olen_add_nat[of n "bytes_in_buf g"] by blast
  then show ?thesis by simp
qed

lemma feed_assert_rejects:
  assumes "fbuf_ok g" "n \<le> fbuf_space g"
  shows "fbuf_feed False g n = Inl Assert_failed"
proof (cases "fbuf_feed False g n")
  case (Inl e)
  then show ?thesis by (auto simp: fbuf_feed_def Let_def split: if_splits)
next
  case (Inr g')
  have "unat (bytes_in_buf g) + unat n < 2 ^ 64"
    using feed_ok(2)[OF assms Inr] unsigned_less[of "bytes_in_buf g'", where ?'a = nat] by simp
  with feed_assert_wraps[OF Inr] show ?thesis by linarith
qed

text \<open>
  Claim C3. The occupancy never exceeds 4096 and a feed that would push it above is
  flagged. The code at four calls: without assertions a feed of 5000 bytes into an empty
  buffer is accepted and leaves the occupancy at 5000; with assertions a feed of 1 byte into
  an empty buffer aborts, and a feed of \<open>2^64 - 1\<close> into a full buffer passes the check.
\<close>

theorem fbuf_feed_check_wrong:
  "fbuf_feed True (fbuf_init \<lparr>bytes_in_buf = 0, buf = replicate 4096 0\<rparr>) 5000 =
     Inr \<lparr>bytes_in_buf = 5000, buf = replicate 4096 0\<rparr> \<and>
   \<not> fbuf_data \<lparr>bytes_in_buf = 5000, buf = replicate 4096 0\<rparr> \<le> buf_size \<and>
   fbuf_feed False (fbuf_init \<lparr>bytes_in_buf = 0, buf = replicate 4096 0\<rparr>) 1 = Inl Assert_failed \<and>
   fbuf_feed False \<lparr>bytes_in_buf = 4096, buf = replicate 4096 0\<rparr> (- 1) =
     Inr \<lparr>bytes_in_buf = 4095, buf = replicate 4096 0\<rparr>"
  by (simp add: fbuf_feed_def fbuf_init_def fbuf_data_def buf_size_def)

section \<open>The streaming copier\<close>

lemma copy_loop_stop: "err s > 10 \<Longrightarrow> copy_loop nd s = (Inr (- 1), s)"
  by (simp add: copy_loop.simps)

lemma copy_loop_retry:
  "\<not> err s > 10 \<Longrightarrow> fread (unat (fbuf_space (f s))) (in_file s) = (d, fi) \<Longrightarrow>
   d = [] \<Longrightarrow> \<not> feof fi \<Longrightarrow>
   copy_loop nd s = copy_loop nd (s\<lparr>err := err s + 1, in_file := fi\<rparr>)"
  by (subst copy_loop.simps) simp

lemma copy_loop_abort:
  "\<not> err s > 10 \<Longrightarrow> fread (unat (fbuf_space (f s))) (in_file s) = (d, fi) \<Longrightarrow>
   \<not> (d = [] \<and> \<not> feof fi) \<Longrightarrow>
   store_at (buf (f s)) (fbuf_space_ptr (f s)) d = Some b' \<Longrightarrow>
   fbuf_feed nd ((f s)\<lparr>buf := b'\<rparr>) (of_nat (length d)) = Inl e \<Longrightarrow>
   copy_loop nd s = (Inl e, s\<lparr>in_file := fi\<rparr>)"
  by (subst copy_loop.simps) auto

lemma copy_loop_feed:
  "\<not> err s > 10 \<Longrightarrow> fread (unat (fbuf_space (f s))) (in_file s) = (d, fi) \<Longrightarrow>
   \<not> (d = [] \<and> \<not> feof fi) \<Longrightarrow>
   store_at (buf (f s)) (fbuf_space_ptr (f s)) d = Some b' \<Longrightarrow>
   fbuf_feed nd ((f s)\<lparr>buf := b'\<rparr>) (of_nat (length d)) = Inr g \<Longrightarrow>
   copy_loop nd s =
     drain_loop nd (s\<lparr>done_reading := (done_reading s \<or> length d = 0), f := g,
                      read_bytes := read_bytes s + of_nat (length d), in_file := fi\<rparr>)"
  by (subst copy_loop.simps) auto

lemma drain_loop_done:
  "fbuf_data (f s) = 0 \<Longrightarrow> drain_loop nd s = (Inr (sint (written_bytes s)), s)"
  by (simp add: drain_loop.simps)

lemma drain_loop_wr_err:
  "fbuf_data (f s) \<noteq> 0 \<Longrightarrow> write_fd (fbuf_contents (f s)) (out s) = (wl, o') \<Longrightarrow> wl \<le> 0 \<Longrightarrow>
   drain_loop nd s = copy_loop nd (s\<lparr>err := err s + 1, out := o'\<rparr>)"
  by (subst drain_loop.simps) auto

lemma drain_loop_again:
  "fbuf_data (f s) \<noteq> 0 \<Longrightarrow> write_fd (fbuf_contents (f s)) (out s) = (wl, o') \<Longrightarrow> 0 < wl \<Longrightarrow>
   fbuf_eat nd (f s) (of_int wl) = Inr g \<Longrightarrow>
   fbuf_space g = 0 \<or> done_reading s \<Longrightarrow>
   drain_loop nd s =
     drain_loop nd (s\<lparr>f := g, written_bytes := written_bytes s + of_int wl, out := o'\<rparr>)"
  by (subst drain_loop.simps) (auto simp: Let_def)

lemma drain_loop_refill:
  "fbuf_data (f s) \<noteq> 0 \<Longrightarrow> write_fd (fbuf_contents (f s)) (out s) = (wl, o') \<Longrightarrow> 0 < wl \<Longrightarrow>
   fbuf_eat nd (f s) (of_int wl) = Inr g \<Longrightarrow>
   \<not> (fbuf_space g = 0 \<or> done_reading s) \<Longrightarrow>
   drain_loop nd s =
     copy_loop nd (s\<lparr>f := g, written_bytes := written_bytes s + of_int wl, out := o'\<rparr>)"
  by (subst drain_loop.simps) (auto simp: Let_def)

lemma fread_step:
  assumes "fread n strm = (d, strm')" "eof_ind strm \<longrightarrow> pending strm = []"
  shows "pending strm = d @ pending strm'" "length d \<le> n"
    "eof_ind strm' \<longrightarrow> pending strm' = []" "eof_ind strm \<longrightarrow> eof_ind strm'"
  using assms
  by (auto simp: fread_def deliver_def split: if_splits list.splits rd_event.splits)

lemma write_fd_step:
  assumes "write_fd d s = (wl, s')"
  shows "wl \<le> int (length d)" "- 1 \<le> wl"
    "written s' = written s @ take (nat wl) d"
  using assms
  by (auto simp: write_fd_def split: list.splits wr_event.splits)

lemma contents_length: "fbuf_ok g \<Longrightarrow> length (fbuf_contents g) = unat (bytes_in_buf g)"
  by (simp add: fbuf_ok_def fbuf_contents_def fbuf_data_def fbuf_data_ptr_def word_le_nat_alt)

lemma fill_ok:
  assumes "fbuf_ok g" "length d \<le> unat (fbuf_space g)"
  shows "\<exists>b'. store_at (buf g) (fbuf_space_ptr g) d = Some b' \<and> fbuf_ok (g\<lparr>buf := b'\<rparr>) \<and>
           of_nat (length d) \<le> fbuf_space (g\<lparr>buf := b'\<rparr>) \<and>
           unat (of_nat (length d) :: size_t) = length d \<and>
           take (unat (bytes_in_buf g) + length d) b' = fbuf_contents g @ d"
proof -
  have le: "bytes_in_buf g \<le> buf_size" and len: "length (buf g) = 4096"
    using assms(1) by (simp_all add: fbuf_ok_def)
  have c: "unat (bytes_in_buf g) \<le> 4096" using le by (simp add: word_le_nat_alt)
  have d: "length d \<le> 4096 - unat (bytes_in_buf g)" using assms(2) unat_space[OF le] by simp
  have u: "unat (of_nat (length d) :: size_t) = length d"
    using d by (intro le_unat_uoi[where z = buf_size]) simp
  have sp: "fbuf_space (g\<lparr>buf := b\<rparr>) = fbuf_space g" for b by (simp add: fbuf_space_def)
  have "(of_nat (length d) :: size_t) \<le> fbuf_space g"
    using u assms(2) by (simp add: word_le_nat_alt)
  then show ?thesis
    using c d len u le
    by (simp add: store_at_def fbuf_space_ptr_def fbuf_ok_def sp fbuf_contents_def
        fbuf_data_def fbuf_data_ptr_def)
qed

lemma copy_invD:
  assumes "copy_inv inp s"
  shows "fbuf_ok (f s)"
    "written (out s) @ fbuf_contents (f s) @ pending (in_file s) = inp"
    "written_bytes s = of_nat (length (written (out s)))"
    "read_bytes s = of_nat (length (written (out s)) + length (fbuf_contents (f s)))"
    "eof_ind (in_file s) \<longrightarrow> pending (in_file s) = []"
    "done_reading s \<longrightarrow> eof_ind (in_file s)"
  using assms unfolding copy_inv_def by simp_all

lemma copy_invI:
  assumes "fbuf_ok (f s)"
    "written (out s) @ fbuf_contents (f s) @ pending (in_file s) = inp"
    "written_bytes s = of_nat (length (written (out s)))"
    "read_bytes s = of_nat (length (written (out s)) + length (fbuf_contents (f s)))"
    "eof_ind (in_file s) \<longrightarrow> pending (in_file s) = []"
    "done_reading s \<longrightarrow> eof_ind (in_file s)"
  shows "copy_inv inp s"
  unfolding copy_inv_def using assms by (intro conjI)

lemma inv_prefix: "copy_inv inp s \<Longrightarrow> \<exists>rest. inp = written (out s) @ rest"
  using copy_invD(2)[of inp s] by (intro exI[of _ "fbuf_contents (f s) @ pending (in_file s)"]) simp

lemma post_stop: "\<exists>rest. inp = written (out s) @ rest \<Longrightarrow> copy_post inp (Inr (- 1), s)"
  by (simp add: copy_post_def)

lemma inv_retry:
  assumes "copy_inv inp s" "fread n (in_file s) = ([], strm)"
  shows "copy_inv inp (s\<lparr>err := e, in_file := strm\<rparr>)"
proof -
  note i = copy_invD[OF assms(1)]
  note st = fread_step[OF assms(2) i(5)]
  have p: "pending strm = pending (in_file s)" using st(1) by simp
  show ?thesis
    using i st(3,4) by (intro copy_invI) (simp_all add: p)
qed

lemma inv_feed:
  assumes inv: "copy_inv inp s"
    and fr: "fread (unat (fbuf_space (f s))) (in_file s) = (d, strm)"
    and nz: "\<not> (d = [] \<and> \<not> feof strm)"
  shows "\<exists>b'. store_at (buf (f s)) (fbuf_space_ptr (f s)) d = Some b' \<and>
     (\<forall>g. fbuf_feed nd ((f s)\<lparr>buf := b'\<rparr>) (of_nat (length d)) = Inr g \<longrightarrow>
        copy_inv inp (s\<lparr>done_reading := (done_reading s \<or> length d = 0), f := g,
                        read_bytes := read_bytes s + of_nat (length d), in_file := strm\<rparr>) \<and>
        (bytes_in_buf g = 0 \<longrightarrow> done_reading s \<or> length d = 0))"
proof -
  note i = copy_invD[OF inv]
  note st = fread_step[OF fr i(5)]
  obtain b' where b': "store_at (buf (f s)) (fbuf_space_ptr (f s)) d = Some b'"
    and ok': "fbuf_ok ((f s)\<lparr>buf := b'\<rparr>)"
    and sp: "of_nat (length d) \<le> fbuf_space ((f s)\<lparr>buf := b'\<rparr>)"
    and ud: "unat (of_nat (length d) :: size_t) = length d"
    and tk: "take (unat (bytes_in_buf (f s)) + length d) b' = fbuf_contents (f s) @ d"
    using fill_ok[OF i(1) st(2)] by blast
  have "copy_inv inp (s\<lparr>done_reading := (done_reading s \<or> length d = 0), f := g,
                        read_bytes := read_bytes s + of_nat (length d), in_file := strm\<rparr>) \<and>
        (bytes_in_buf g = 0 \<longrightarrow> done_reading s \<or> length d = 0)"
    if fd: "fbuf_feed nd ((f s)\<lparr>buf := b'\<rparr>) (of_nat (length d)) = Inr g" for g
  proof -
    note fo = feed_ok[OF ok' sp fd]
    have cnt: "unat (bytes_in_buf g) = unat (bytes_in_buf (f s)) + length d"
      using fo(2) ud by simp
    have cont: "fbuf_contents g = fbuf_contents (f s) @ d"
      using fo(3) cnt tk by (simp add: fbuf_contents_def fbuf_data_def fbuf_data_ptr_def)
    have z: "bytes_in_buf g = 0 \<longrightarrow> length d = 0"
      using cnt by (cases "bytes_in_buf g = 0") simp_all
    have dn: "done_reading s \<or> length d = 0 \<longrightarrow> eof_ind strm"
      using i(6) st(4) nz by (auto simp: feof_def)
    have app: "written (out s) @ fbuf_contents g @ pending strm = inp"
      unfolding cont using i(2) st(1) by simp
    have rb: "read_bytes s + of_nat (length d) =
        of_nat (length (written (out s)) + length (fbuf_contents g))"
      unfolding cont i(4) by simp
    have "copy_inv inp (s\<lparr>done_reading := (done_reading s \<or> length d = 0), f := g,
                        read_bytes := read_bytes s + of_nat (length d), in_file := strm\<rparr>)"
      using fo(1) app rb i(3) st(3) dn by (intro copy_invI) simp_all
    with z show ?thesis by simp
  qed
  with b' show ?thesis by blast
qed

lemma inv_wr_err:
  assumes "copy_inv inp s" "write_fd (fbuf_contents (f s)) (out s) = (wl, o')" "wl \<le> 0"
  shows "copy_inv inp (s\<lparr>err := e, out := o'\<rparr>)"
proof -
  have "written o' = written (out s)"
    using write_fd_step(3)[OF assms(2)] assms(3) by simp
  then show ?thesis
    using copy_invD[OF assms(1)] by (intro copy_invI) simp_all
qed

lemma inv_eat:
  assumes inv: "copy_inv inp s"
    and wr: "write_fd (fbuf_contents (f s)) (out s) = (wl, o')" and pos: "0 < wl"
  shows "\<exists>g. fbuf_eat nd (f s) (of_int wl) = Inr g \<and>
           copy_inv inp (s\<lparr>f := g, written_bytes := written_bytes s + of_int wl, out := o'\<rparr>) \<and>
           (bytes_in_buf g = 0 \<longrightarrow> fbuf_space g \<noteq> 0)"
proof -
  note i = copy_invD[OF inv]
  have ok: "fbuf_ok (f s)" by (rule i(1))
  note ws = write_fd_step[OF wr]
  have len: "length (fbuf_contents (f s)) = unat (bytes_in_buf (f s))"
    using ok by (rule contents_length)
  obtain k where k: "wl = int k" using pos by (metis less_imp_le nonneg_int_cases)
  have nle: "k \<le> unat (bytes_in_buf (f s))" using ws(1) len k by linarith
  have w: "(of_int wl :: size_t) = of_nat k" by (simp add: k)
  have u: "unat (of_nat k :: size_t) = k" using nle by (rule le_unat_uoi)
  have le: "(of_int wl :: size_t) \<le> fbuf_data (f s)"
    unfolding w using u nle by (simp add: word_le_nat_alt fbuf_data_def)
  obtain g where g: "fbuf_eat nd (f s) (of_int wl) = Inr g" and okg: "fbuf_ok g"
    and cg: "fbuf_contents g = drop (unat (of_int wl :: size_t)) (fbuf_contents (f s))"
    using eat_ok[OF ok le, of nd] by blast
  have cg': "fbuf_contents g = drop k (fbuf_contents (f s))" using cg unfolding w u .
  have wr': "written o' = written (out s) @ take k (fbuf_contents (f s))"
    using ws(3) by (simp add: k)
  have lw: "length (written o') = length (written (out s)) + k"
    unfolding wr' using nle len by simp
  have wb: "written_bytes s + of_int wl = of_nat (length (written o'))"
    unfolding lw i(3) w by simp
  have tot: "length (written o') + length (fbuf_contents g) =
      length (written (out s)) + length (fbuf_contents (f s))"
    unfolding lw cg' using nle len by simp
  have td: "take k c @ drop k c @ p = c @ p" for c p :: "byte list"
    by (simp flip: append_assoc)
  have app: "written o' @ fbuf_contents g @ pending (in_file s) = inp"
    unfolding wr' cg' using i(2) by (simp add: td)
  have inv': "copy_inv inp (s\<lparr>f := g, written_bytes := written_bytes s + of_int wl, out := o'\<rparr>)"
    using okg wb tot app i(4,5,6) by (intro copy_invI) simp_all
  have "bytes_in_buf g = 0 \<longrightarrow> fbuf_space g \<noteq> 0"
    by (simp add: fbuf_space_def buf_size_def)
  with g inv' show ?thesis by blast
qed

lemma copy_partial:
  "copy_inv inp s \<Longrightarrow> copy_post inp (copy_loop nd s)"
  "copy_inv inp s \<Longrightarrow> (bytes_in_buf (f s) = 0 \<longrightarrow> done_reading s) \<Longrightarrow>
     copy_post inp (drain_loop nd s)"
proof (induction nd s and nd s rule: copy_loop_drain_loop.induct)
  case (1 nd s)
  note inv = "1.prems"
  show ?case
  proof (cases "err s > 10")
    case True
    then show ?thesis using inv_prefix[OF inv] by (simp add: copy_loop_stop post_stop)
  next
    case False
    obtain d strm where fr: "fread (unat (fbuf_space (f s))) (in_file s) = (d, strm)"
      by (cases "fread (unat (fbuf_space (f s))) (in_file s)") auto
    show ?thesis
    proof (cases "d = [] \<and> \<not> feof strm")
      case True
      then have eq: "copy_loop nd s = copy_loop nd (s\<lparr>err := err s + 1, in_file := strm\<rparr>)"
        using copy_loop_retry[OF False fr] by simp
      have "copy_inv inp (s\<lparr>err := err s + 1, in_file := strm\<rparr>)"
        using inv fr True by (intro inv_retry[where n = "unat (fbuf_space (f s))"]) simp_all
      then show ?thesis
        using "1.IH"(1)[OF False refl fr[symmetric] refl] True eq by simp
    next
      case nz: False
      obtain b' where b': "store_at (buf (f s)) (fbuf_space_ptr (f s)) d = Some b'"
        and fd: "\<And>g. fbuf_feed nd ((f s)\<lparr>buf := b'\<rparr>) (of_nat (length d)) = Inr g \<Longrightarrow>
          copy_inv inp (s\<lparr>done_reading := (done_reading s \<or> length d = 0), f := g,
                        read_bytes := read_bytes s + of_nat (length d), in_file := strm\<rparr>) \<and>
          (bytes_in_buf g = 0 \<longrightarrow> done_reading s \<or> length d = 0)"
        using inv_feed[OF inv fr nz, of nd] by blast
      show ?thesis
      proof (cases "fbuf_feed nd ((f s)\<lparr>buf := b'\<rparr>) (of_nat (length d))")
        case (Inl e)
        show ?thesis
          using copy_loop_abort[OF False fr nz b' Inl] inv_prefix[OF inv]
          by (simp add: copy_post_def)
      next
        case (Inr g)
        have nz': "\<not> (length d = 0 \<and> \<not> feof strm)" using nz by simp
        show ?thesis
          using copy_loop_feed[OF False fr nz b' Inr] fd[OF Inr]
            "1.IH"(2)[OF False refl fr[symmetric] refl nz' b' Inr]
          by simp
      qed
    qed
  qed
next
  case (2 nd s)
  note inv = "2.prems"(1) and pre = "2.prems"(2)
  show ?case
  proof (cases "fbuf_data (f s) = 0")
    case True
    then have dn: "done_reading s" and z: "fbuf_contents (f s) = []"
      using pre by (simp_all add: fbuf_data_def fbuf_contents_def)
    then have "pending (in_file s) = []" using copy_invD(5,6)[OF inv] by simp
    then have w: "written (out s) = inp" using copy_invD(2)[OF inv] z by simp
    then have "written (out s) = inp" "written_bytes s = of_nat (length inp)"
      using copy_invD(3)[OF inv] by simp_all
    then show ?thesis
      using drain_loop_done[OF True] by (simp add: copy_post_def)
  next
    case False
    obtain wl o' where wr: "write_fd (fbuf_contents (f s)) (out s) = (wl, o')"
      by (cases "write_fd (fbuf_contents (f s)) (out s)") auto
    show ?thesis
    proof (cases "wl \<le> 0")
      case True
      have i': "copy_inv inp (s\<lparr>err := err s + 1, out := o'\<rparr>)"
        using inv wr True by (rule inv_wr_err)
      show ?thesis
      proof (cases "wl = 0")
        case True
        then show ?thesis
          using drain_loop_wr_err[OF False wr \<open>wl \<le> 0\<close>] i'
            "2.IH"(1)[OF False refl wr[symmetric]] by simp
      next
        case nz: False
        then show ?thesis
          using drain_loop_wr_err[OF False wr \<open>wl \<le> 0\<close>] i' True
            "2.IH"(2)[OF False refl wr[symmetric] nz] by simp
      qed
    next
      case nle: False
      then have pos: "0 < wl" by simp
      obtain g where g: "fbuf_eat nd (f s) (of_int wl) = Inr g"
        and i': "copy_inv inp (s\<lparr>f := g, written_bytes := written_bytes s + of_int wl, out := o'\<rparr>)"
        and sp: "bytes_in_buf g = 0 \<longrightarrow> fbuf_space g \<noteq> 0"
        using inv_eat[OF inv wr pos, of nd] by blast
      have n0: "wl \<noteq> 0" "\<not> wl < 0" using pos by simp_all
      show ?thesis
      proof (cases "fbuf_space g = 0 \<or> done_reading s")
        case True
        show ?thesis
          using drain_loop_again[OF False wr pos g True] i' sp True
            "2.IH"(3)[OF False refl wr[symmetric] n0 g refl]
          by auto
      next
        case nt: False
        show ?thesis
          using drain_loop_refill[OF False wr pos g nt] i' nt
            "2.IH"(4)[OF False refl wr[symmetric] n0 g refl]
          by auto
      qed
    qed
  qed
qed

lemma fbuf_init_ok: "length (buf f0) = unat buf_size \<Longrightarrow> fbuf_ok (fbuf_init f0)"
  by (simp add: fbuf_ok_def fbuf_init_def)

lemma copy_inv_init:
  assumes "length (buf f0) = unat buf_size"
  shows "copy_inv inp \<lparr>read_bytes = 0, written_bytes = 0, err = 0, done_reading = False,
        f = fbuf_init f0, in_file = open_in inp rs, out = open_out ws\<rparr>"
  using fbuf_init_ok[OF assms]
  by (intro copy_invI)
     (simp_all add: open_in_def open_out_def fbuf_contents_def fbuf_data_def fbuf_init_def)

lemma sint_of_nat_small:
  assumes "n < 2 ^ 63" shows "sint (of_nat n :: size_t) = int n"
proof -
  have "take_bit 64 n = n"
    using assms by (intro take_bit_nat_eq_self) (simp add: less_trans[of n "2 ^ 63"])
  then have "sint (of_nat n :: size_t) = signed_take_bit 63 (int n)"
    by (simp add: sint_uint unsigned_of_nat)
  also have "\<dots> = int n"
    using assms by (intro signed_take_bit_int_eq_self) simp_all
  finally show ?thesis .
qed

text \<open>
  What a returned count means. For an input shorter than \<open>2^63\<close> bytes (so that the
  \<open>ssize_t\<close> result does not wrap) and every behaviour of short or failing reads and
  writes: when \<open>copy_file_to_fd\<close> returns a value that is not negative, the bytes written
  to the descriptor are the bytes of the input, in order, and the value is their number.
  Whether a count is returned at all is the matter of \<open>copy_file_clean\<close>,
  \<open>first_write_failure_fatal\<close> and \<open>copy_file_aborts\<close> below.
\<close>

lemma copy_fidelity:
  assumes "length (buf f0) = unat buf_size"
    and "copy_file_to_fd ndebug f0 (open_out ws) (open_in inp rs) = (Inr r, s')"
    and "0 \<le> r"
    and "length inp < 2 ^ 63"
  shows "written (out s') = inp \<and> r = int (length inp)"
proof -
  have "copy_post inp (copy_file_to_fd ndebug f0 (open_out ws) (open_in inp rs))"
    unfolding copy_file_to_fd_def
    by (rule copy_partial(1)[OF copy_inv_init[OF assms(1)]])
  then have "written (out s') = inp \<and> r = sint (of_nat (length inp) :: size_t)"
    using assms(2,3) by (simp add: copy_post_def)
  then show ?thesis using sint_of_nat_small[OF assms(4)] by simp
qed

text \<open>
  Where no call of \<open>fread\<close> or \<open>write\<close> fails, a build without assertions copies all of
  the input and returns its length.
\<close>

lemma fread_clean:
  assumes "fread n strm = (d, strm')" "Rd_fail \<notin> set (rd_sched strm)" "0 < n"
  shows "Rd_fail \<notin> set (rd_sched strm')" "d = [] \<longrightarrow> eof_ind strm'"
  using assms
  by (auto simp: fread_def deliver_def split: if_splits list.splits rd_event.splits)

lemma write_fd_clean:
  assumes "write_fd d s = (wl, s')" "Wr_zero \<notin> set (wr_sched s)" "Wr_fail \<notin> set (wr_sched s)"
    "d \<noteq> []"
  shows "0 < wl" "Wr_zero \<notin> set (wr_sched s')" "Wr_fail \<notin> set (wr_sched s')"
  using assms
  by (auto simp: write_fd_def split: list.splits wr_event.splits)

lemma feed_ndebug: "fbuf_feed True g n = Inr (g\<lparr>bytes_in_buf := bytes_in_buf g + n\<rparr>)"
  by (simp add: fbuf_feed_def)

lemma space_pos: "fbuf_ok g \<Longrightarrow> fbuf_space g \<noteq> 0 \<Longrightarrow> 0 < unat (fbuf_space g)"
  by (simp add: unat_gt_0)

lemma copy_clean:
  "nd \<Longrightarrow> copy_inv inp s \<Longrightarrow> clean s \<Longrightarrow> fbuf_space (f s) \<noteq> 0 \<Longrightarrow>
     \<exists>s'. copy_loop nd s = (Inr (sint (of_nat (length inp) :: size_t)), s') \<and>
          written (out s') = inp"
  "nd \<Longrightarrow> copy_inv inp s \<Longrightarrow> clean s \<Longrightarrow> (bytes_in_buf (f s) = 0 \<longrightarrow> done_reading s) \<Longrightarrow>
     \<exists>s'. drain_loop nd s = (Inr (sint (of_nat (length inp) :: size_t)), s') \<and>
          written (out s') = inp"
proof (induction nd s and nd s rule: copy_loop_drain_loop.induct)
  case (1 nd s)
  note nd = "1.prems"(1) and inv = "1.prems"(2) and cl = "1.prems"(3) and sp = "1.prems"(4)
  have e: "\<not> err s > 10" using cl by (simp add: clean_def)
  obtain d strm where fr: "fread (unat (fbuf_space (f s))) (in_file s) = (d, strm)"
    by (cases "fread (unat (fbuf_space (f s))) (in_file s)") auto
  have rf: "Rd_fail \<notin> set (rd_sched (in_file s))" using cl by (simp add: clean_def)
  note fc = fread_clean[OF fr rf space_pos[OF copy_invD(1)[OF inv] sp]]
  have nz: "\<not> (d = [] \<and> \<not> feof strm)" using fc(2) by (simp add: feof_def)
  have nz': "\<not> (length d = 0 \<and> \<not> feof strm)" using nz by simp
  obtain b' where b': "store_at (buf (f s)) (fbuf_space_ptr (f s)) d = Some b'"
    and fd: "\<And>g. fbuf_feed nd ((f s)\<lparr>buf := b'\<rparr>) (of_nat (length d)) = Inr g \<Longrightarrow>
      copy_inv inp (s\<lparr>done_reading := (done_reading s \<or> length d = 0), f := g,
                    read_bytes := read_bytes s + of_nat (length d), in_file := strm\<rparr>) \<and>
      (bytes_in_buf g = 0 \<longrightarrow> done_reading s \<or> length d = 0)"
    using inv_feed[OF inv fr nz, of nd] by blast
  define g where "g = (f s)\<lparr>buf := b', bytes_in_buf := bytes_in_buf (f s) + of_nat (length d)\<rparr>"
  have fg: "fbuf_feed nd ((f s)\<lparr>buf := b'\<rparr>) (of_nat (length d)) = Inr g"
    using nd by (simp add: feed_ndebug g_def)
  have cl': "clean (s\<lparr>done_reading := (done_reading s \<or> length d = 0), f := g,
                    read_bytes := read_bytes s + of_nat (length d), in_file := strm\<rparr>)"
    using cl fc(1) by (simp add: clean_def)
  show ?case
    using copy_loop_feed[OF e fr nz b' fg] fd[OF fg] cl' nd
      "1.IH"(2)[OF e refl fr[symmetric] refl nz' b' fg]
    by simp
next
  case (2 nd s)
  note nd = "2.prems"(1) and inv = "2.prems"(2) and cl = "2.prems"(3) and pre = "2.prems"(4)
  show ?case
  proof (cases "fbuf_data (f s) = 0")
    case True
    then have dn: "done_reading s" and z: "fbuf_contents (f s) = []"
      using pre by (simp_all add: fbuf_data_def fbuf_contents_def)
    then have "pending (in_file s) = []" using copy_invD(5,6)[OF inv] by simp
    then have w: "written (out s) = inp" using copy_invD(2)[OF inv] z by simp
    then have "written_bytes s = of_nat (length inp)"
      using copy_invD(3)[OF inv] by simp
    then show ?thesis
      using drain_loop_done[OF True, of nd] w by simp
  next
    case False
    obtain wl o' where wr: "write_fd (fbuf_contents (f s)) (out s) = (wl, o')"
      by (cases "write_fd (fbuf_contents (f s)) (out s)") auto
    have ne: "fbuf_contents (f s) \<noteq> []"
      using False contents_length[OF copy_invD(1)[OF inv]]
      by (auto simp: fbuf_data_def unat_eq_0)
    have w0: "Wr_zero \<notin> set (wr_sched (out s))" and w1: "Wr_fail \<notin> set (wr_sched (out s))"
      using cl by (simp_all add: clean_def)
    note wc = write_fd_clean[OF wr w0 w1 ne]
    have pos: "0 < wl" by (rule wc(1))
    have n0: "wl \<noteq> 0" "\<not> wl < 0" using pos by simp_all
    obtain g where g: "fbuf_eat nd (f s) (of_int wl) = Inr g"
      and i': "copy_inv inp (s\<lparr>f := g, written_bytes := written_bytes s + of_int wl, out := o'\<rparr>)"
      and sp: "bytes_in_buf g = 0 \<longrightarrow> fbuf_space g \<noteq> 0"
      using inv_eat[OF inv wr pos, of nd] by blast
    have cl': "clean (s\<lparr>f := g, written_bytes := written_bytes s + of_int wl, out := o'\<rparr>)"
      using cl wc(2,3) by (simp add: clean_def)
    show ?thesis
    proof (cases "fbuf_space g = 0 \<or> done_reading s")
      case True
      show ?thesis
        using drain_loop_again[OF False wr pos g True] i' sp True cl' nd
          "2.IH"(3)[OF False refl wr[symmetric] n0 g refl]
        by auto
    next
      case nt: False
      show ?thesis
        using drain_loop_refill[OF False wr pos g nt] i' nt cl' nd
          "2.IH"(4)[OF False refl wr[symmetric] n0 g refl]
        by auto
    qed
  qed
qed

lemma copy_file_clean:
  assumes "length (buf f0) = unat buf_size"
    and "Rd_fail \<notin> set rs" and "Wr_zero \<notin> set ws" and "Wr_fail \<notin> set ws"
  shows "\<exists>s'. copy_file_to_fd True f0 (open_out ws) (open_in inp rs) =
            (Inr (sint (of_nat (length inp) :: size_t)), s') \<and> written (out s') = inp"
  unfolding copy_file_to_fd_def
proof (rule copy_clean(1)[OF TrueI copy_inv_init[OF assms(1)]])
  show "clean \<lparr>read_bytes = 0, written_bytes = 0, err = 0, done_reading = False,
        f = fbuf_init f0, in_file = open_in inp rs, out = open_out ws\<rparr>"
    using assms(2-4) by (simp add: clean_def open_in_def open_out_def)
  show "fbuf_space (f \<lparr>read_bytes = 0, written_bytes = 0, err = 0, done_reading = False,
        f = fbuf_init f0, in_file = open_in inp rs, out = open_out ws\<rparr>) \<noteq> 0"
    by (simp add: fbuf_space_def fbuf_init_def buf_size_def)
qed

text \<open>
  An instance: three bytes, read in two calls and written one at a time.
\<close>

lemma copy_fidelity_example:
  "\<exists>s'. copy_file_to_fd True \<lparr>bytes_in_buf = 0, buf = replicate 4096 0\<rparr>
            (open_out [Wr_upto 0]) (open_in [1, 2, 3] [Rd_upto 1]) = (Inr 3, s') \<and>
        written (out s') = [1, 2, 3]"
proof -
  let ?f0 = "\<lparr>bytes_in_buf = 0, buf = replicate 4096 (0 :: byte)\<rparr>"
  have len: "length (buf ?f0) = unat buf_size" by simp
  obtain s' where run: "copy_file_to_fd True ?f0 (open_out [Wr_upto 0]) (open_in [1, 2, 3] [Rd_upto 1]) =
      (Inr (sint (of_nat (length [1, 2, 3 :: byte]) :: size_t)), s')"
    using copy_file_clean[OF len, of "[Rd_upto 1]" "[Wr_upto 0]" "[1, 2, 3]"] by auto
  then have run': "copy_file_to_fd True ?f0 (open_out [Wr_upto 0]) (open_in [1, 2, 3] [Rd_upto 1]) =
      (Inr 3, s')" by simp
  have "written (out s') = [1, 2, 3] \<and> (3 :: int) = int (length [1, 2, 3 :: byte])"
    using copy_fidelity[OF len run'] by simp
  with run' show ?thesis by blast
qed

text \<open>A full buffer and a stream not at its end: every further pass of the outer loop
  asks fread for 0 bytes and counts the 0 it gets as a read error.\<close>

lemma copy_loop_full:
  assumes "fbuf_space (f s) = 0" "\<not> eof_ind (in_file s)"
  shows "fst (copy_loop nd s) = Inr (- 1) \<and> out (snd (copy_loop nd s)) = out s"
  using assms
proof (induction "budget (err s)" arbitrary: s rule: less_induct)
  case less
  show ?case
  proof (cases "err s > 10")
    case True
    then show ?thesis by (simp add: copy_loop_stop)
  next
    case False
    have fr: "fread (unat (fbuf_space (f s))) (in_file s) = ([], in_file s)"
      using less.prems by (simp add: fread_def)
    have eq: "copy_loop nd s = copy_loop nd (s\<lparr>err := err s + 1, in_file := in_file s\<rparr>)"
      using less.prems by (intro copy_loop_retry[OF False fr]) (simp_all add: feof_def)
    have "budget (err (s\<lparr>err := err s + 1, in_file := in_file s\<rparr>)) < budget (err s)"
      using budget_eq[OF False] by simp
    from less.hyps[OF this] less.prems show ?thesis
      unfolding eq by simp
  qed
qed

lemma first_write_failure_fatal:
  assumes len: "length (buf f0) = unat buf_size" and big: "4096 \<le> length inp"
    and ev: "e = Wr_zero \<or> e = Wr_fail"
  shows "fst (copy_file_to_fd True f0 (open_out (e # ws)) (open_in inp [])) = Inr (- 1) \<and>
    written (out (snd (copy_file_to_fd True f0 (open_out (e # ws)) (open_in inp [])))) = []"
proof -
  let ?s0 = "\<lparr>read_bytes = 0, written_bytes = 0, err = 0, done_reading = False,
        f = fbuf_init f0, in_file = open_in inp [], out = open_out (e # ws)\<rparr>"
  let ?d = "take 4096 inp"
  let ?strm = "\<lparr>pending = drop 4096 inp, eof_ind = False, rd_sched = []\<rparr>"
  have ne: "inp \<noteq> []" using big by auto
  have fr: "fread (unat (fbuf_space (f ?s0))) (in_file ?s0) = (?d, ?strm)"
    using ne by (simp add: fread_def deliver_def open_in_def fbuf_space_def fbuf_init_def buf_size_def)
  have dl: "length ?d = 4096" using big by simp
  have nz: "\<not> (?d = [] \<and> \<not> feof ?strm)" using ne by simp
  have st: "store_at (buf (f ?s0)) (fbuf_space_ptr (f ?s0)) ?d = Some (?d @ drop 4096 (buf f0))"
    using len dl by (simp add: store_at_def fbuf_space_ptr_def fbuf_init_def)
  let ?g = "\<lparr>bytes_in_buf = 4096, buf = ?d @ drop 4096 (buf f0)\<rparr>"
  have fd: "fbuf_feed True ((f ?s0)\<lparr>buf := ?d @ drop 4096 (buf f0)\<rparr>) (of_nat (length ?d)) = Inr ?g"
    unfolding dl by (simp add: feed_ndebug fbuf_init_def)
  let ?s1 = "?s0\<lparr>done_reading := (done_reading ?s0 \<or> length ?d = 0), f := ?g,
                      read_bytes := read_bytes ?s0 + of_nat (length ?d), in_file := ?strm\<rparr>"
  have e0: "\<not> err ?s0 > 10" by simp
  have c1: "copy_loop True ?s0 = drain_loop True ?s1"
    by (rule copy_loop_feed[OF e0 fr nz st fd])
  have d0: "fbuf_data (f ?s1) \<noteq> 0" by (simp add: fbuf_data_def)
  obtain wl where wr: "write_fd (fbuf_contents (f ?s1)) (out ?s1) = (wl, open_out ws)" and wl: "wl \<le> 0"
    using ev by (auto simp: write_fd_def open_out_def)
  let ?s2 = "?s1\<lparr>err := err ?s1 + 1, out := open_out ws\<rparr>"
  have c2: "drain_loop True ?s1 = copy_loop True ?s2"
    by (rule drain_loop_wr_err[OF d0 wr wl])
  have "fbuf_space (f ?s2) = 0" "\<not> eof_ind (in_file ?s2)"
    by (simp_all add: fbuf_space_def buf_size_def)
  from copy_loop_full[OF this, of True]
  show ?thesis
    unfolding copy_file_to_fd_def c1 c2 by (simp add: open_out_def)
qed

text \<open>
  With assertions enabled the copier never returns a count and never writes a byte: the
  first \<open>fbuf_feed\<close> aborts, also the one that follows the end of the input.
\<close>

lemma copy_loop_asserting:
  assumes "fbuf_ok (f s)" "bytes_in_buf (f s) = 0"
  shows "(fst (copy_loop False s) = Inl Assert_failed \<or> fst (copy_loop False s) = Inr (- 1)) \<and>
         out (snd (copy_loop False s)) = out s"
  using assms
proof (induction "budget (err s)" arbitrary: s rule: less_induct)
  case less
  show ?case
  proof (cases "err s > 10")
    case True
    then show ?thesis by (simp add: copy_loop_stop)
  next
    case False
    obtain d strm where fr: "fread (unat (fbuf_space (f s))) (in_file s) = (d, strm)"
      by (cases "fread (unat (fbuf_space (f s))) (in_file s)") auto
    show ?thesis
    proof (cases "d = [] \<and> \<not> feof strm")
      case True
      have eq: "copy_loop False s = copy_loop False (s\<lparr>err := err s + 1, in_file := strm\<rparr>)"
        using True by (intro copy_loop_retry[OF False fr]) simp_all
      have "budget (err (s\<lparr>err := err s + 1, in_file := strm\<rparr>)) < budget (err s)"
        using budget_eq[OF False] by simp
      from less.hyps[OF this] less.prems show ?thesis unfolding eq by simp
    next
      case nz: False
      have n: "length d \<le> unat (fbuf_space (f s))"
        using fr by (auto simp: fread_def deliver_def split: if_splits list.splits rd_event.splits)
      obtain b' where b': "store_at (buf (f s)) (fbuf_space_ptr (f s)) d = Some b'"
        and ok': "fbuf_ok ((f s)\<lparr>buf := b'\<rparr>)"
        and sp: "of_nat (length d) \<le> fbuf_space ((f s)\<lparr>buf := b'\<rparr>)"
        using fill_ok[OF less.prems(1) n] by blast
      have "fbuf_feed False ((f s)\<lparr>buf := b'\<rparr>) (of_nat (length d)) = Inl Assert_failed"
        using ok' sp by (rule feed_assert_rejects)
      from copy_loop_abort[OF False fr nz b' this] show ?thesis by simp
    qed
  qed
qed

lemma copy_file_asserting:
  assumes "length (buf f0) = unat buf_size"
  shows "(fst (copy_file_to_fd False f0 ofd ifd) = Inl Assert_failed \<or>
          fst (copy_file_to_fd False f0 ofd ifd) = Inr (- 1)) \<and>
         out (snd (copy_file_to_fd False f0 ofd ifd)) = ofd"
proof -
  let ?s0 = "\<lparr>read_bytes = 0, written_bytes = 0, err = 0, done_reading = False,
        f = fbuf_init f0, in_file = ifd, out = ofd\<rparr>"
  have "fbuf_ok (f ?s0)" "bytes_in_buf (f ?s0) = 0"
    using fbuf_init_ok[OF assms] by (simp_all add: fbuf_init_def)
  from copy_loop_asserting[OF this] show ?thesis
    unfolding copy_file_to_fd_def by simp
qed

text \<open>Where the first \<open>fread\<close> does not fail, the abort comes at once.\<close>

lemma copy_file_aborts:
  assumes len: "length (buf f0) = unat buf_size"
    and fr: "fread 4096 ifd = (d, strm)" and nz: "\<not> (d = [] \<and> \<not> feof strm)"
  shows "copy_file_to_fd False f0 ofd ifd =
    (Inl Assert_failed, \<lparr>read_bytes = 0, written_bytes = 0, err = 0, done_reading = False,
        f = fbuf_init f0, in_file = strm, out = ofd\<rparr>)"
proof -
  let ?s0 = "\<lparr>read_bytes = 0, written_bytes = 0, err = 0, done_reading = False,
        f = fbuf_init f0, in_file = ifd, out = ofd\<rparr>"
  have ok: "fbuf_ok (f ?s0)" using fbuf_init_ok[OF len] by simp
  have sp: "unat (fbuf_space (f ?s0)) = 4096"
    by (simp add: fbuf_space_def fbuf_init_def buf_size_def)
  have fr0: "fread (unat (fbuf_space (f ?s0))) (in_file ?s0) = (d, strm)"
    unfolding sp using fr by simp
  have n: "length d \<le> unat (fbuf_space (f ?s0))"
    using fr0 by (auto simp: fread_def deliver_def split: if_splits list.splits rd_event.splits)
  obtain b' where b': "store_at (buf (f ?s0)) (fbuf_space_ptr (f ?s0)) d = Some b'"
    and ok': "fbuf_ok ((f ?s0)\<lparr>buf := b'\<rparr>)"
    and le: "of_nat (length d) \<le> fbuf_space ((f ?s0)\<lparr>buf := b'\<rparr>)"
    using fill_ok[OF ok n] by blast
  have fd: "fbuf_feed False ((f ?s0)\<lparr>buf := b'\<rparr>) (of_nat (length d)) = Inl Assert_failed"
    using ok' le by (rule feed_assert_rejects)
  have e0: "\<not> err ?s0 > 10" by simp
  show ?thesis
    unfolding copy_file_to_fd_def copy_loop_abort[OF e0 fr0 nz b' fd] by simp
qed

text \<open>
  Claim C1. Where no write failure persists, the bytes written are the bytes read, in
  order, and the count returned is their number, for every finite input, the empty one
  included. The code on three runs. Built with assertions, as it is unless \<open>NDEBUG\<close> is
  defined, it aborts in the first \<open>fbuf_feed\<close> on an input of three bytes and on the empty
  input, with no \<open>fread\<close> or \<open>write\<close> failing and nothing written. Built without
  assertions, on 5000 bytes with a first \<open>write\<close> that returns -1 once and every later one
  ready to accept everything, it returns -1 with nothing written: the write is never
  tried again.
\<close>

theorem copy_loses_input:
  "copy_file_to_fd False \<lparr>bytes_in_buf = 0, buf = replicate 4096 0\<rparr>
       (open_out []) (open_in [1, 2, 3] []) =
     (Inl Assert_failed,
      \<lparr>read_bytes = 0, written_bytes = 0, err = 0, done_reading = False,
        f = \<lparr>bytes_in_buf = 0, buf = replicate 4096 0\<rparr>,
        in_file = \<lparr>pending = [], eof_ind = False, rd_sched = []\<rparr>,
        out = \<lparr>written = [], wr_sched = []\<rparr>\<rparr>) \<and>
   copy_file_to_fd False \<lparr>bytes_in_buf = 0, buf = replicate 4096 0\<rparr>
       (open_out []) (open_in [] []) =
     (Inl Assert_failed,
      \<lparr>read_bytes = 0, written_bytes = 0, err = 0, done_reading = False,
        f = \<lparr>bytes_in_buf = 0, buf = replicate 4096 0\<rparr>,
        in_file = \<lparr>pending = [], eof_ind = True, rd_sched = []\<rparr>,
        out = \<lparr>written = [], wr_sched = []\<rparr>\<rparr>) \<and>
   fst (copy_file_to_fd True \<lparr>bytes_in_buf = 0, buf = replicate 4096 0\<rparr>
          (open_out [Wr_fail]) (open_in (replicate 5000 7) [])) = Inr (- 1) \<and>
   written (out (snd (copy_file_to_fd True \<lparr>bytes_in_buf = 0, buf = replicate 4096 0\<rparr>
          (open_out [Wr_fail]) (open_in (replicate 5000 7) [])))) = []"
proof -
  let ?f0 = "\<lparr>bytes_in_buf = 0, buf = replicate 4096 (0 :: byte)\<rparr>"
  have len: "length (buf ?f0) = unat buf_size" by simp
  have i: "fbuf_init ?f0 = ?f0" by (simp add: fbuf_init_def)
  have r1: "fread 4096 (open_in [1, 2, 3] []) =
      ([1, 2, 3], \<lparr>pending = [], eof_ind = False, rd_sched = []\<rparr>)"
    by (simp add: fread_def deliver_def open_in_def)
  have r2: "fread 4096 (open_in [] []) = ([], \<lparr>pending = [], eof_ind = True, rd_sched = []\<rparr>)"
    by (simp add: fread_def deliver_def open_in_def)
  have a: "copy_file_to_fd False ?f0 (open_out []) (open_in [1, 2, 3] []) =
     (Inl Assert_failed,
      \<lparr>read_bytes = 0, written_bytes = 0, err = 0, done_reading = False, f = ?f0,
        in_file = \<lparr>pending = [], eof_ind = False, rd_sched = []\<rparr>,
        out = \<lparr>written = [], wr_sched = []\<rparr>\<rparr>)"
    using copy_file_aborts[OF len r1, of "open_out []"] by (simp add: i open_out_def)
  have b: "copy_file_to_fd False ?f0 (open_out []) (open_in [] []) =
     (Inl Assert_failed,
      \<lparr>read_bytes = 0, written_bytes = 0, err = 0, done_reading = False, f = ?f0,
        in_file = \<lparr>pending = [], eof_ind = True, rd_sched = []\<rparr>,
        out = \<lparr>written = [], wr_sched = []\<rparr>\<rparr>)"
    using copy_file_aborts[OF len r2, of "open_out []"] by (simp add: i open_out_def feof_def)
  have c: "fst (copy_file_to_fd True ?f0 (open_out [Wr_fail]) (open_in (replicate 5000 7) [])) =
        Inr (- 1) \<and>
      written (out (snd (copy_file_to_fd True ?f0 (open_out [Wr_fail])
        (open_in (replicate 5000 7) [])))) = []"
    by (rule first_write_failure_fatal) simp_all
  from a b c show ?thesis by blast
qed

text \<open>
  Claim C2. The error counter starts at 0, the copy is abandoned once it exceeds 10, and
  a run with at most 10 transient failures completes. The code on 4096 bytes of input
  whose first \<open>write\<close> returns 0 and whose later writes would all succeed: the failed write
  leaves the loop with the buffer full, the next \<open>fread\<close> is asked for 0 bytes, its 0 is
  counted as a read error until the counter exceeds 10, and the copy returns -1 with
  nothing written.
\<close>

theorem copy_gives_up_after_one_write_failure:
  "fst (copy_file_to_fd True \<lparr>bytes_in_buf = 0, buf = replicate 4096 0\<rparr>
          (open_out [Wr_zero]) (open_in (replicate 4096 65) [])) = Inr (- 1) \<and>
   written (out (snd (copy_file_to_fd True \<lparr>bytes_in_buf = 0, buf = replicate 4096 0\<rparr>
          (open_out [Wr_zero]) (open_in (replicate 4096 65) [])))) = []"
  by (rule first_write_failure_fatal) simp_all

section \<open>The store action\<close>

lemmas parse_unum_eval = parse_unum_def strtoumax0_def isspace_def in_base_def digit_val_def

text \<open>
  Claim C9. A numeric field is accepted only if its token is a non-negative integer
  without trailing characters and without overflow. The code on the tokens \<open>-1\<close> and
  the empty string: both are accepted, as \<open>2^64 - 1\<close> and as 0.
\<close>

theorem parse_unum_accepts_sign_and_empty:
  "parse_unum ''-1'' ''pid'' = Inr 18446744073709551615 \<and> parse_unum [] ''pid'' = Inr 0"
  by (simp add: parse_unum_eval)

text \<open>
  A token that \<open>parse_unum\<close> rejects ends the run before any call on the file system.
\<close>

lemma parse_failure_before_fs:
  assumes "store_arg_errors optind dir argv = []" "read_crash_event optind argv = Inl x"
  shows "act_store e optind dir argv w = (Inl x, w)"
  using assms by (simp add: act_store_def)

text \<open>
  Claim C5. The store action requires exactly 7 or 8 tokens after the action word. The
  code on a command line without options: \<open>main\<close> has already stepped over the action
  word when \<open>act_store\<close> subtracts \<open>optind\<close> once more, so 7 tokens are refused and 9 tokens
  pass the check.
\<close>

theorem store_arity_off_by_optind:
  "main e no_options
     [''dumpctl'', ''store'', ''1234'', ''0'', ''0'', ''11'', ''1700000000'', ''0'', ''myprog''] w =
     (Inl (Exit_failure ''Error: store requires 7 or 8 arguments''), w) \<and>
   store_arg_errors (go_optind no_options) (go_dir no_options)
     (drop (go_optind no_options + 1)
        [''dumpctl'', ''store'', ''1234'', ''0'', ''0'', ''11'', ''1700000000'', ''0'', ''myprog'',
         ''/usr/bin/myprog'', ''extra'']) = []"
  by (simp add: main_def no_options_def default_path_def argv_at_def parse_act_def act_store_def
      store_arg_errors_def)

text \<open>
  Claim C4. With the tokens in the documented order the metadata record holds each
  token under its key. The code on the documented order: the fields are read one place
  too far to the right for each unit of \<open>optind\<close>, the timestamp is parsed from the
  executable name, and the run ends before any file is written.
\<close>

theorem store_documented_order_misread:
  "main e no_options
     [''dumpctl'', ''store'', ''1234'', ''0'', ''0'', ''11'', ''1700000000'', ''0'', ''myprog'',
      ''/usr/bin/myprog''] w =
   (Inl (Exit_failure ''Error: trailing characters in timestamp, myprog''), w)"
  by (simp add: main_def no_options_def default_path_def argv_at_def parse_act_def act_store_def
      store_arg_errors_def read_crash_event_def parse_arg_def parse_unum_eval)

text \<open>
  Claim C8. For every base directory that does not start with the separator the store
  action exits with a failure, and the file system is as it was: no call was made.
\<close>

theorem store_rejects_relative_dir:
  assumes "case dir of [] \<Rightarrow> True | c # cs \<Rightarrow> c \<noteq> CHR ''/''"
  shows "\<exists>msg. act_store e optind dir argv w = (Inl (Exit_failure msg), w)"
  using assms by (simp add: act_store_def store_arg_errors_def Let_def)

text \<open>
  An instance: the base directory \<open>relative/dir\<close>.
\<close>

theorem store_rejects_relative_dir_witness:
  "\<exists>msg. act_store example_env 1 ''relative/dir''
      [''1234'', ''0'', ''0'', ''11'', ''1700000000'', ''0'', ''myprog'', ''/usr/bin/myprog'']
      example_world = (Inl (Exit_failure msg), example_world)"
  by (rule store_rejects_relative_dir) simp

subsection \<open>The name of the per-crash directory\<close>

text \<open>
  Where \<open>gmtime_r\<close> succeeds and what \<open>strftime\<close> writes fits in \<open>path_buf\<close>, the leaf name
  is the UTC time of the timestamp followed by \<open>.pid=<pid>.uid=<uid>\<close> where that fits as
  well; where it does not, the store action exits with a failure that reports the length
  of the suffix, which is what \<open>snprintf\<close> returns.
\<close>

lemma strftime_stamp_nonempty: "strftime_stamp t \<noteq> []"
  by (simp add: strftime_stamp_def)

lemma leaf_name_format:
  assumes "gmtime_r (sint v_ts) = Some t" and "length (strftime_stamp t) < PATH_MAX e"
  shows
    "(length (strftime_stamp t) +
        length (''.pid='' @ dec (unat v_pid) @ ''.uid='' @ dec (unat v_uid)) < PATH_MAX e \<longrightarrow>
      format_leaf e v_ts v_pid v_uid =
        Inr (strftime_stamp t @ ''.pid='' @ dec (unat v_pid) @ ''.uid='' @ dec (unat v_uid))) \<and>
     (\<not> length (strftime_stamp t) +
        length (''.pid='' @ dec (unat v_pid) @ ''.uid='' @ dec (unat v_uid)) < PATH_MAX e \<longrightarrow>
      format_leaf e v_ts v_pid v_uid =
        Inl (Exit_failure
          (''Error: formatted storage path too long (needed '' @
           dec (length (''.pid='' @ dec (unat v_pid) @ ''.uid='' @ dec (unat v_uid))) @
           '' bytes)'')))"
proof -
  have b: "(if length (strftime_stamp t) + 1 \<le> PATH_MAX e then length (strftime_stamp t) else 0) =
      length (strftime_stamp t)"
    using assms(2) by simp
  have nz: "length (strftime_stamp t) \<noteq> 0" using strftime_stamp_nonempty[of t] by simp
  show ?thesis
    unfolding format_leaf_def Let_def assms(1) option.case b
    using nz assms(2) by auto
qed

text \<open>
  An instance: the timestamp 1700000000 with pid 1234 and uid 0, on a \<open>path_buf\<close> of 4096
  and of 32 bytes.
\<close>

lemma stamp_example:
  "\<exists>t. gmtime_r (sint (1700000000 :: uintmax_t)) = Some t \<and>
       strftime_stamp t = ''2023-11-14_22:13:20''"
proof -
  have "map_option strftime_stamp (gmtime_r 1700000000) = Some ''2023-11-14_22:13:20''"
    by code_simp
  then show ?thesis by (cases "gmtime_r 1700000000") simp_all
qed

lemma leaf_name_example:
  "format_leaf example_env 1700000000 1234 0 = Inr ''2023-11-14_22:13:20.pid=1234.uid=0'' \<and>
   format_leaf (example_env\<lparr>PATH_MAX := 32\<rparr>) 1700000000 1234 0 =
     Inl (Exit_failure ''Error: formatted storage path too long (needed 15 bytes)'')"
proof -
  obtain t where g: "gmtime_r (sint (1700000000 :: uintmax_t)) = Some t"
    and s: "strftime_stamp t = ''2023-11-14_22:13:20''"
    using stamp_example by blast
  have d: "dec 1234 = ''1234''" "dec 0 = ''0''" "dec 15 = ''15''" by (simp_all add: dec.simps)
  have p1: "PATH_MAX example_env = 4096" "PATH_MAX (example_env\<lparr>PATH_MAX := 32\<rparr>) = 32"
    by (simp_all add: example_env_def)
  have n: "length ''.pid=1234.uid=0'' = 15" by simp
  have sfx: "''.pid='' @ dec (unat (1234 :: uintmax_t)) @ ''.uid='' @ dec (unat (0 :: uintmax_t)) =
      ''.pid=1234.uid=0''" by (simp add: d)
  have l1: "length (strftime_stamp t) < PATH_MAX example_env"
    and l2: "length (strftime_stamp t) < PATH_MAX (example_env\<lparr>PATH_MAX := 32\<rparr>)"
    unfolding s p1 by simp_all
  from leaf_name_format[OF g l1, of 1234 0] leaf_name_format[OF g l2, of 1234 0]
  show ?thesis unfolding sfx n p1 s by (simp add: d)
qed

text \<open>
  The last second that \<open>gmtime_r\<close> can break down is the end of the year 2147485547, whose
  \<open>tm_year\<close> is \<open>INT_MAX\<close>; the next one overflows the field.
\<close>

lemma gmtime_r_last: "gmtime_r 67768036191676799 =
    Some \<lparr>tm_sec = 59, tm_min = 59, tm_hour = 23, tm_mday = 31, tm_mon = 11, tm_year = 2147483647\<rparr>"
  by code_simp

lemma gmtime_r_overflow: "gmtime_r 67768036191676800 = None"
  by code_simp

text \<open>
  Two command lines without options that get past the argument checks, the two tokens in
  front making up for the places by which the store action reads too far, and the
  \<open>mkdir\<close> loop on the default base directory where only the root exists.
\<close>

lemma example_event:
  "read_crash_event 1 [''-'', ''-'', ''1234'', ''0'', ''0'', ''11'', ''1700000000'', ''myprog'', ''/usr/bin/myprog''] =
      Inr \<lparr>pid = 1234, uid = 0, gid = 0, sig = 11, ts = 1700000000,
           comm = Arg ''/usr/bin/myprog'', path = Null_arg\<rparr>"
  by (simp add: read_crash_event_def parse_arg_def argv_at_def parse_unum_eval)

lemma example_event_late:
  "read_crash_event 1 [''-'', ''-'', ''1234'', ''0'', ''0'', ''11'', ''67768036191676800'', ''myprog'', ''/usr/bin/myprog''] =
      Inr \<lparr>pid = 1234, uid = 0, gid = 0, sig = 11, ts = 67768036191676800,
           comm = Arg ''/usr/bin/myprog'', path = Null_arg\<rparr>"
  by (simp add: read_crash_event_def parse_arg_def argv_at_def parse_unum_eval)

lemma default_walk:
  "mkdir_loop ''/var/lib/systemd/coredump'' 1 example_world =
     (Inr (), example_world\<lparr>dirs := {''/var/lib/systemd/coredump'', ''/var/lib/systemd'', ''/var/lib'', ''/var'', ''/''},
        trace := [Ev_mkdir ''/var'' (octal [7, 7, 7]), Ev_mkdir ''/var/lib'' (octal [7, 7, 7]),
                  Ev_mkdir ''/var/lib/systemd'' (octal [7, 7, 7]),
                  Ev_mkdir ''/var/lib/systemd/coredump'' (octal [7, 7, 7])]\<rparr>)"
  by (simp add: mkdir_loop.simps strchr_from_def mkdir_def example_world_def Let_def)

text \<open>
  Claim C7. The leaf name is the timestamp formatted as UTC calendar time with second
  resolution, followed by \<open>.pid=<pid>.uid=<uid>\<close>, and a name that does not fit is a fatal
  error. The code on the timestamp token \<open>67768036191676800\<close>, which \<open>parse_unum\<close> accepts:
  \<open>gmtime_r\<close> fails on it, its result is not checked, and \<open>strftime\<close> formats a
  \<open>struct tm\<close> that was never set, so that the name is not derived from the timestamp.
\<close>

theorem leaf_name_from_unset_time:
  "parse_unum ''67768036191676800'' ''timestamp'' = Inr 67768036191676800 \<and>
   gmtime_r (sint (67768036191676800 :: uintmax_t)) = None \<and>
   format_leaf example_env 67768036191676800 1234 0 = Inl Undefined_behaviour \<and>
   fst (main example_env no_options
      [''dumpctl'', ''store'', ''-'', ''-'', ''1234'', ''0'', ''0'', ''11'', ''67768036191676800'', ''myprog'', ''/usr/bin/myprog'']
      example_world) = Inl Undefined_behaviour"
proof -
  have p: "parse_unum ''67768036191676800'' ''timestamp'' = Inr 67768036191676800"
    by (simp add: parse_unum_eval)
  have leaf: "format_leaf example_env 67768036191676800 1234 0 = Inl Undefined_behaviour"
    by (simp add: format_leaf_def gmtime_r_overflow)
  have orf: "open_refused example_world = {}" by (simp add: example_world_def)
  have st: "fst (act_store example_env 1 default_path
      [''-'', ''-'', ''1234'', ''0'', ''0'', ''11'', ''67768036191676800'', ''myprog'', ''/usr/bin/myprog''] example_world) =
     Inl Undefined_behaviour"
    unfolding act_store_def default_path_def
    by (simp add: store_arg_errors_def example_event_late[simplified] default_walk[simplified] leaf
        opendir_def orf)
  have run: "main example_env no_options
      [''dumpctl'', ''store'', ''-'', ''-'', ''1234'', ''0'', ''0'', ''11'', ''67768036191676800'', ''myprog'', ''/usr/bin/myprog'']
      example_world =
    act_store example_env 1 default_path
      [''-'', ''-'', ''1234'', ''0'', ''0'', ''11'', ''67768036191676800'', ''myprog'', ''/usr/bin/myprog''] example_world"
    by (simp add: main_def no_options_def argv_at_def parse_act_def)
  from p leaf st show ?thesis unfolding run by (simp add: gmtime_r_overflow)
qed

subsection \<open>Creating the directories\<close>

lemma strchr_from_Some:
  assumes "strchr_from s p c = Some j"
  shows "p \<le> j" "j < length s" "s ! j = c" "\<forall>i. p \<le> i \<and> i < j \<longrightarrow> s ! i \<noteq> c"
proof -
  let ?t = "takeWhile (\<lambda>x. x \<noteq> c) (drop p s)"
  have j: "j = p + length ?t" and lt: "p + length ?t < length s"
    using assms by (auto simp: strchr_from_def Let_def split: if_splits)
  show "p \<le> j" "j < length s" using j lt by simp_all
  have l: "length ?t < length (drop p s)" using lt by simp
  from nth_length_takeWhile[OF l] show "s ! j = c" using j lt by simp
  show "\<forall>i. p \<le> i \<and> i < j \<longrightarrow> s ! i \<noteq> c"
  proof (intro allI impI)
    fix i assume i: "p \<le> i \<and> i < j"
    then have k: "i - p < length ?t" using j by linarith
    then have "?t ! (i - p) \<in> set ?t" by simp
    then have "?t ! (i - p) \<noteq> c" by (auto dest: set_takeWhileD)
    moreover have "?t ! (i - p) = drop p s ! (i - p)" using k by (rule takeWhile_nth)
    ultimately show "s ! i \<noteq> c" using i lt j by simp
  qed
qed

lemma strchr_from_None:
  assumes "strchr_from s p c = None"
  shows "\<forall>i. p \<le> i \<and> i < length s \<longrightarrow> s ! i \<noteq> c"
proof (intro allI impI)
  fix i assume i: "p \<le> i \<and> i < length s"
  let ?t = "takeWhile (\<lambda>x. x \<noteq> c) (drop p s)"
  have "\<not> p + length ?t < length s"
    using assms by (auto simp: strchr_from_def Let_def split: if_splits)
  moreover have "length ?t \<le> length (drop p s)" by (rule length_takeWhile_le)
  ultimately have "length ?t = length (drop p s)" using i by simp
  moreover have "?t = take (length ?t) (drop p s)" by (rule takeWhile_eq_take)
  ultimately have "?t = drop p s" by simp
  then have all: "\<forall>x \<in> set (drop p s). x \<noteq> c"
    by (simp add: takeWhile_eq_all_conv)
  have "i - p < length (drop p s)" using i by simp linarith
  then have "drop p s ! (i - p) \<in> set (drop p s)" by (rule nth_mem)
  moreover have "drop p s ! (i - p) = s ! i" using i by simp
  ultimately show "s ! i \<noteq> c" using all by metis
qed

lemma prefixes_next:
  assumes "strchr_from dir p CHR ''/'' = Some j"
  shows "dir_prefixes_from dir p = take j dir # dir_prefixes_from dir (j + 1)"
proof -
  note s = strchr_from_Some[OF assms]
  have "[p..<length dir] = [p..<j] @ [j..<length dir]"
    using upt_add_eq_append[OF s(1), of "length dir - j"] s(2) by simp
  moreover have "[j..<length dir] = j # [j + 1..<length dir]"
    using upt_conv_Cons[OF s(2)] by simp
  ultimately have split: "[p..<length dir] = [p..<j] @ j # [j + 1..<length dir]" by simp
  have "filter (\<lambda>i. dir ! i = CHR ''/'') [p..<j] = []"
    using s(4) by (auto simp: filter_empty_conv)
  then show ?thesis
    unfolding dir_prefixes_from_def split using s(3) by simp
qed

lemma prefixes_last:
  assumes "strchr_from dir p CHR ''/'' = None"
  shows "dir_prefixes_from dir p = [dir]"
proof -
  have "filter (\<lambda>i. dir ! i = CHR ''/'') [p..<length dir] = []"
    using strchr_from_None[OF assms] by (auto simp: filter_empty_conv)
  then show ?thesis by (simp add: dir_prefixes_from_def)
qed

lemma mkdir_effect:
  assumes "mkdir q m w = (r, w')"
  shows "trace w' = trace w @ [Ev_mkdir q m]"
    "mkdir_refused w' = mkdir_refused w"
    "dirs w \<subseteq> dirs w'"
    "r = None \<longrightarrow> q \<in> dirs w'"
    "r = Some EEXIST \<longrightarrow> dirs w' = dirs w \<and> (q \<in> dirs w \<or> mkdir_refused w q = Some EEXIST)"
    "r \<noteq> None \<and> r \<noteq> Some EEXIST \<longrightarrow> mkdir_refused w q = r"
  using assms
  by (auto simp: mkdir_def Let_def split: if_splits option.splits)

lemma mkdir_exists:
  assumes "q \<in> dirs w \<or> mkdir_refused w q = Some EEXIST"
  shows "\<exists>w'. mkdir q m w = (Some EEXIST, w') \<and> dirs w' = dirs w \<and>
    mkdir_refused w' = mkdir_refused w"
  using assms by (auto simp: mkdir_def Let_def)

lemma mkdir_loop_fail:
  assumes "strchr_from dir p CHR ''/'' = q"
    "mkdir (case q of Some j \<Rightarrow> take j dir | None \<Rightarrow> dir) (octal [7, 7, 7]) w = (r, w1)"
    "r \<noteq> None \<and> r \<noteq> Some EEXIST"
  shows "mkdir_loop dir p w =
    (Inl (Exit_failure (''Error: could not create path '' @
       (case q of Some j \<Rightarrow> take j dir | None \<Rightarrow> dir))), w1)"
  using assms by (subst mkdir_loop.simps) (simp add: Let_def)

lemma mkdir_loop_end:
  assumes "strchr_from dir p CHR ''/'' = None"
    "mkdir dir (octal [7, 7, 7]) w = (r, w1)" "r = None \<or> r = Some EEXIST"
  shows "mkdir_loop dir p w = (Inr (), w1)"
  using assms by (subst mkdir_loop.simps) (auto simp: Let_def)

lemma mkdir_loop_next:
  assumes "strchr_from dir p CHR ''/'' = Some j"
    "mkdir (take j dir) (octal [7, 7, 7]) w = (r, w1)" "r = None \<or> r = Some EEXIST"
  shows "mkdir_loop dir p w = mkdir_loop dir (j + 1) w1"
  using assms by (subst mkdir_loop.simps) (auto simp: Let_def)

lemma mkdir_refusal:
  assumes "mkdir q m w = (r, w')" "r \<noteq> None" "r \<noteq> Some EEXIST"
  shows "q \<notin> dirs w'" "dirs w' = dirs w"
  using assms
  by (auto simp: mkdir_def Let_def split: if_splits option.splits)

lemma walk_okI:
  assumes "mkdir_refused w' = mkdir_refused w" "dirs w \<subseteq> dirs w'" "k < length ps"
    "trace w' = trace w @ map (\<lambda>q. Ev_mkdir q (octal [7, 7, 7])) (take (Suc k) ps)"
    "\<forall>q \<in> set (take k ps). q \<in> dirs w' \<or> mkdir_refused w q = Some EEXIST"
    "r = Inr () \<longrightarrow>
       Suc k = length ps \<and> (ps ! k \<in> dirs w' \<or> mkdir_refused w (ps ! k) = Some EEXIST)"
    "\<forall>x. r = Inl x \<longrightarrow>
       ps ! k \<notin> dirs w' \<and> (\<exists>e. e \<noteq> EEXIST \<and> mkdir_refused w (ps ! k) = Some e) \<and>
       x = Exit_failure (''Error: could not create path '' @ ps ! k)"
    "ps = dir_prefixes_from dir p"
  shows "walk_ok dir p w (r, w')"
proof -
  have "\<exists>k < length ps.
        trace w' = trace w @ map (\<lambda>q. Ev_mkdir q (octal [7, 7, 7])) (take (Suc k) ps) \<and>
        (\<forall>q \<in> set (take k ps). q \<in> dirs w' \<or> mkdir_refused w q = Some EEXIST) \<and>
        (r = Inr () \<longrightarrow>
           Suc k = length ps \<and> (ps ! k \<in> dirs w' \<or> mkdir_refused w (ps ! k) = Some EEXIST)) \<and>
        (\<forall>x. r = Inl x \<longrightarrow>
           ps ! k \<notin> dirs w' \<and> (\<exists>e. e \<noteq> EEXIST \<and> mkdir_refused w (ps ! k) = Some e) \<and>
           x = Exit_failure (''Error: could not create path '' @ ps ! k))"
    using assms(3-7) by blast
  then show ?thesis
    unfolding walk_ok_def assms(8)[symmetric] fst_conv snd_conv
    using assms(1,2) by blast
qed

lemma walk_okD:
  assumes "walk_ok dir p w (r, w')"
  obtains k where "mkdir_refused w' = mkdir_refused w" "dirs w \<subseteq> dirs w'"
    "k < length (dir_prefixes_from dir p)"
    "trace w' = trace w @ map (\<lambda>q. Ev_mkdir q (octal [7, 7, 7])) (take (Suc k) (dir_prefixes_from dir p))"
    "\<forall>q \<in> set (take k (dir_prefixes_from dir p)). q \<in> dirs w' \<or> mkdir_refused w q = Some EEXIST"
    "r = Inr () \<longrightarrow>
       Suc k = length (dir_prefixes_from dir p) \<and>
       (dir_prefixes_from dir p ! k \<in> dirs w' \<or> mkdir_refused w (dir_prefixes_from dir p ! k) = Some EEXIST)"
    "\<forall>x. r = Inl x \<longrightarrow>
       dir_prefixes_from dir p ! k \<notin> dirs w' \<and>
       (\<exists>e. e \<noteq> EEXIST \<and> mkdir_refused w (dir_prefixes_from dir p ! k) = Some e) \<and>
       x = Exit_failure (''Error: could not create path '' @ dir_prefixes_from dir p ! k)"
  using assms unfolding walk_ok_def fst_conv snd_conv by blast

lemma mkdir_loop_walk: "walk_ok dir p w (mkdir_loop dir p w)"
proof (induction dir p w rule: mkdir_loop.induct)
  case (1 dir p w)
  let ?q = "strchr_from dir p CHR ''/''"
  let ?t = "case ?q of Some j \<Rightarrow> take j dir | None \<Rightarrow> dir"
  let ?ev = "\<lambda>q. Ev_mkdir q (octal [7, 7, 7])"
  obtain r w1 where mk: "mkdir ?t (octal [7, 7, 7]) w = (r, w1)"
    by (cases "mkdir ?t (octal [7, 7, 7]) w") auto
  note me = mkdir_effect[OF mk]
  have hd: "\<exists>rest. dir_prefixes_from dir p = ?t # rest"
    by (cases ?q) (simp_all add: prefixes_last prefixes_next)
  then obtain rest where ps: "dir_prefixes_from dir p = ?t # rest" by blast
  show ?case
  proof (cases "r \<noteq> None \<and> r \<noteq> Some EEXIST")
    case True
    then obtain e where e: "r = Some e" "e \<noteq> EEXIST" by (cases r) auto
    have rf: "mkdir_refused w ?t = Some e" using me(6) True e by simp
    have no: "?t \<notin> dirs w1" using mkdir_refusal(1)[OF mk] True by blast
    show ?thesis
      unfolding mkdir_loop_fail[OF refl mk True]
    proof (rule walk_okI[where k = 0, OF me(2) me(3) _ _ _ _ _ ps[symmetric]])
      show "0 < length (?t # rest)" by simp
      show "trace w1 = trace w @ map ?ev (take (Suc 0) (?t # rest))" using me(1) by simp
      show "\<forall>q \<in> set (take 0 (?t # rest)). q \<in> dirs w1 \<or> mkdir_refused w q = Some EEXIST" by simp
      show "Inl (Exit_failure (''Error: could not create path '' @ ?t)) = Inr () \<longrightarrow>
           Suc 0 = length (?t # rest) \<and>
              ((?t # rest) ! 0 \<in> dirs w1 \<or> mkdir_refused w ((?t # rest) ! 0) = Some EEXIST)"
        by simp
      show "\<forall>x. Inl (Exit_failure (''Error: could not create path '' @ ?t)) = Inl x \<longrightarrow>
             (?t # rest) ! 0 \<notin> dirs w1 \<and>
             (\<exists>e. e \<noteq> EEXIST \<and> mkdir_refused w ((?t # rest) ! 0) = Some e) \<and>
             x = Exit_failure (''Error: could not create path '' @ (?t # rest) ! 0)"
        using no rf e(2) by auto
    qed
  next
    case False
    then have ok: "r = None \<or> r = Some EEXIST" by blast
    have here: "?t \<in> dirs w1 \<or> mkdir_refused w ?t = Some EEXIST"
      using ok me(4,5) by auto
    show ?thesis
    proof (cases ?q)
      case None
      then have t: "?t = dir" and ps1: "dir_prefixes_from dir p = [dir]"
        by (simp_all add: prefixes_last)
      have mk': "mkdir dir (octal [7, 7, 7]) w = (r, w1)" using mk t by simp
      show ?thesis
        unfolding mkdir_loop_end[OF None mk' ok]
      proof (rule walk_okI[where k = 0, OF me(2) me(3) _ _ _ _ _ ps1[symmetric]])
        show "0 < length [dir]" by simp
        show "trace w1 = trace w @ map ?ev (take (Suc 0) [dir])" using me(1) t by simp
        show "\<forall>q \<in> set (take 0 [dir]). q \<in> dirs w1 \<or> mkdir_refused w q = Some EEXIST" by simp
        show "Inr () = Inr () \<longrightarrow>
            Suc 0 = length [dir] \<and> ([dir] ! 0 \<in> dirs w1 \<or> mkdir_refused w ([dir] ! 0) = Some EEXIST)"
          using here t by simp
        show "\<forall>x. Inr () = Inl x \<longrightarrow>
            [dir] ! 0 \<notin> dirs w1 \<and> (\<exists>e. e \<noteq> EEXIST \<and> mkdir_refused w ([dir] ! 0) = Some e) \<and>
             x = Exit_failure (''Error: could not create path '' @ [dir] ! 0)"
          by simp
      qed
    next
      case (Some j)
      then have t: "?t = take j dir"
        and ps1: "dir_prefixes_from dir p = take j dir # dir_prefixes_from dir (j + 1)"
        by (simp_all add: prefixes_next)
      let ?ps' = "dir_prefixes_from dir (j + 1)"
      have mk': "mkdir (take j dir) (octal [7, 7, 7]) w = (r, w1)" using mk t by simp
      have ih: "walk_ok dir (j + 1) w1 (mkdir_loop dir (j + 1) w1)"
        using "1.IH"[OF refl refl refl mk[symmetric] False Some] .
      obtain r2 w2 where res: "mkdir_loop dir (j + 1) w1 = (r2, w2)"
        by (cases "mkdir_loop dir (j + 1) w1") auto
      from ih[unfolded res] obtain k where k:
        "mkdir_refused w2 = mkdir_refused w1" "dirs w1 \<subseteq> dirs w2" "k < length ?ps'"
        "trace w2 = trace w1 @ map ?ev (take (Suc k) ?ps')"
        "\<forall>q \<in> set (take k ?ps'). q \<in> dirs w2 \<or> mkdir_refused w1 q = Some EEXIST"
        "r2 = Inr () \<longrightarrow>
           Suc k = length ?ps' \<and> (?ps' ! k \<in> dirs w2 \<or> mkdir_refused w1 (?ps' ! k) = Some EEXIST)"
        "\<forall>x. r2 = Inl x \<longrightarrow>
           ?ps' ! k \<notin> dirs w2 \<and> (\<exists>e. e \<noteq> EEXIST \<and> mkdir_refused w1 (?ps' ! k) = Some e) \<and>
           x = Exit_failure (''Error: could not create path '' @ ?ps' ! k)"
        by (rule walk_okD)
      have here2: "take j dir \<in> dirs w2 \<or> mkdir_refused w (take j dir) = Some EEXIST"
        using here t k(2) by auto
      show ?thesis
        unfolding mkdir_loop_next[OF Some mk' ok] res
      proof (rule walk_okI[where k = "Suc k", OF _ _ _ _ _ _ _ ps1[symmetric]])
        show "mkdir_refused w2 = mkdir_refused w" using k(1) me(2) by simp
        show "dirs w \<subseteq> dirs w2" using k(2) me(3) by blast
        show "Suc k < length (take j dir # ?ps')" using k(3) by simp
        show "trace w2 = trace w @ map ?ev (take (Suc (Suc k)) (take j dir # ?ps'))"
          using k(4) me(1) t by simp
        show "\<forall>q \<in> set (take (Suc k) (take j dir # ?ps')). q \<in> dirs w2 \<or> mkdir_refused w q = Some EEXIST"
          using k(5) here2 me(2) by simp
        show "r2 = Inr () \<longrightarrow>
           Suc (Suc k) = length (take j dir # ?ps') \<and>
              ((take j dir # ?ps') ! Suc k \<in> dirs w2 \<or>
               mkdir_refused w ((take j dir # ?ps') ! Suc k) = Some EEXIST)"
          unfolding nth_Cons_Suc using k(6) me(2) by simp
        show "\<forall>x. r2 = Inl x \<longrightarrow>
             (take j dir # ?ps') ! Suc k \<notin> dirs w2 \<and>
             (\<exists>e. e \<noteq> EEXIST \<and> mkdir_refused w ((take j dir # ?ps') ! Suc k) = Some e) \<and>
             x = Exit_failure (''Error: could not create path '' @ (take j dir # ?ps') ! Suc k)"
          unfolding nth_Cons_Suc using k(7) me(2) by simp
      qed
    qed
  qed
qed

lemma mkdir_loop_again:
  assumes "\<forall>q \<in> set (dir_prefixes_from dir p). q \<in> dirs w \<or> mkdir_refused w q = Some EEXIST"
  shows "\<exists>w'. mkdir_loop dir p w = (Inr (), w') \<and> dirs w' = dirs w \<and>
    mkdir_refused w' = mkdir_refused w"
  using assms
proof (induction dir p w rule: mkdir_loop.induct)
  case (1 dir p w)
  show ?case
  proof (cases "strchr_from dir p CHR ''/''")
    case None
    then have "dir \<in> dirs w \<or> mkdir_refused w dir = Some EEXIST"
      using "1.prems" by (simp add: prefixes_last)
    from mkdir_exists[OF this, of "octal [7, 7, 7]"] obtain w1
      where mk: "mkdir dir (octal [7, 7, 7]) w = (Some EEXIST, w1)"
        and fr: "dirs w1 = dirs w" "mkdir_refused w1 = mkdir_refused w" by blast
    show ?thesis using mkdir_loop_end[OF None mk] fr by simp
  next
    case (Some j)
    note ps = prefixes_next[OF Some]
    have "take j dir \<in> dirs w \<or> mkdir_refused w (take j dir) = Some EEXIST"
      using "1.prems" ps by simp
    from mkdir_exists[OF this, of "octal [7, 7, 7]"] obtain w1
      where mk: "mkdir (take j dir) (octal [7, 7, 7]) w = (Some EEXIST, w1)"
        and fr: "dirs w1 = dirs w" "mkdir_refused w1 = mkdir_refused w" by blast
    have pre: "\<forall>q \<in> set (dir_prefixes_from dir (j + 1)). q \<in> dirs w1 \<or> mkdir_refused w1 q = Some EEXIST"
      using "1.prems" ps fr by simp
    have mk0: "(Some EEXIST, w1) =
        mkdir (case Some j of None \<Rightarrow> dir | Some j \<Rightarrow> take j dir) (octal [7, 7, 7]) w"
      using mk by simp
    have "\<exists>w'. mkdir_loop dir (j + 1) w1 = (Inr (), w') \<and> dirs w' = dirs w1 \<and>
        mkdir_refused w' = mkdir_refused w1"
      using "1.IH"[OF Some[symmetric] refl refl mk0 _ refl pre] by simp
    then show ?thesis using mkdir_loop_next[OF Some mk] fr by simp
  qed
qed

text \<open>
  The \<open>mkdir\<close> loop of the store action. It calls \<open>mkdir\<close> with mode 0777 on each prefix
  of the base directory that ends before a separator, shortest first, and then on the base
  directory itself, and stops at the first prefix that is refused with an error other than
  \<open>EEXIST\<close>, which is fatal. After a successful run every prefix exists or was reported
  as existing, and a second run on the result succeeds and leaves the set of directories as
  it is.
\<close>

lemma mkdir_walk:
  assumes "mkdir_loop dir 1 w = (r, w')"
  shows "\<exists>k < length (dir_prefixes dir).
           trace w' =
             trace w @ map (\<lambda>q. Ev_mkdir q (octal [7, 7, 7])) (take (Suc k) (dir_prefixes dir)) \<and>
           (\<forall>q \<in> set (take k (dir_prefixes dir)).
              q \<in> dirs w' \<or> mkdir_refused w q = Some EEXIST) \<and>
           (r = Inr () \<longrightarrow>
              Suc k = length (dir_prefixes dir) \<and>
              (\<forall>q \<in> set (dir_prefixes dir). q \<in> dirs w' \<or> mkdir_refused w q = Some EEXIST) \<and>
              (\<exists>w''. mkdir_loop dir 1 w' = (Inr (), w'') \<and> dirs w'' = dirs w')) \<and>
           (\<forall>x. r = Inl x \<longrightarrow>
              dir_prefixes dir ! k \<notin> dirs w' \<and>
              (\<exists>e. e \<noteq> EEXIST \<and> mkdir_refused w (dir_prefixes dir ! k) = Some e) \<and>
              x = Exit_failure (''Error: could not create path '' @ dir_prefixes dir ! k))"
proof -
  let ?ps = "dir_prefixes_from dir 1"
  have wk: "walk_ok dir 1 w (r, w')"
    using mkdir_loop_walk[of dir 1 w] assms by simp
  from wk obtain k where k:
    "mkdir_refused w' = mkdir_refused w" "dirs w \<subseteq> dirs w'" "k < length ?ps"
    "trace w' = trace w @ map (\<lambda>q. Ev_mkdir q (octal [7, 7, 7])) (take (Suc k) ?ps)"
    "\<forall>q \<in> set (take k ?ps). q \<in> dirs w' \<or> mkdir_refused w q = Some EEXIST"
    "r = Inr () \<longrightarrow>
       Suc k = length ?ps \<and> (?ps ! k \<in> dirs w' \<or> mkdir_refused w (?ps ! k) = Some EEXIST)"
    "\<forall>x. r = Inl x \<longrightarrow>
       ?ps ! k \<notin> dirs w' \<and> (\<exists>e. e \<noteq> EEXIST \<and> mkdir_refused w (?ps ! k) = Some e) \<and>
       x = Exit_failure (''Error: could not create path '' @ ?ps ! k)"
    by (rule walk_okD)
  have all: "\<forall>q \<in> set ?ps. q \<in> dirs w' \<or> mkdir_refused w q = Some EEXIST" if ok: "r = Inr ()"
  proof -
    have "take (Suc k) ?ps = ?ps" using k(6) ok by simp
    then have "?ps = take k ?ps @ [?ps ! k]"
      using take_Suc_conv_app_nth[OF k(3)] by simp
    then have "set ?ps = set (take k ?ps) \<union> {?ps ! k}"
      by (metis list.set(1) list.simps(15) set_append Un_insert_right sup_bot.right_neutral)
    then show ?thesis using k(5,6) ok by auto
  qed
  have again: "\<exists>w''. mkdir_loop dir 1 w' = (Inr (), w'') \<and> dirs w'' = dirs w'" if ok: "r = Inr ()"
  proof -
    have "\<forall>q \<in> set ?ps. q \<in> dirs w' \<or> mkdir_refused w' q = Some EEXIST"
      using all[OF ok] k(1) by simp
    from mkdir_loop_again[OF this] show ?thesis by blast
  qed
  show ?thesis
    unfolding dir_prefixes_def
    using k(3,4,5,6,7) all again by blast
qed

text \<open>
  Two instances. The base directory \<open>/a/b\<close> where only the root exists: both prefixes are
  created, and a second run leaves them as they are. The base directory \<open>/a/b/c\<close> where
  \<open>mkdir\<close> of \<open>/a/b\<close> is refused with error 13: the run stops there, \<open>/a/b/c\<close> is not
  tried.
\<close>

lemma example_walk:
  "mkdir_loop ''/a/b'' 1 example_world =
     (Inr (), example_world\<lparr>dirs := {''/a/b'', ''/a'', ''/''},
        trace := [Ev_mkdir ''/a'' (octal [7, 7, 7]), Ev_mkdir ''/a/b'' (octal [7, 7, 7])]\<rparr>)"
  by (simp add: mkdir_loop.simps strchr_from_def mkdir_def example_world_def Let_def)

lemma mkdir_walk_example:
  "dir_prefixes ''/a/b'' = [''/a'', ''/a/b''] \<and>
   (\<exists>w''. mkdir_loop ''/a/b'' 1
            (example_world\<lparr>dirs := {''/a/b'', ''/a'', ''/''},
               trace := [Ev_mkdir ''/a'' (octal [7, 7, 7]), Ev_mkdir ''/a/b'' (octal [7, 7, 7])]\<rparr>) =
          (Inr (), w'') \<and> dirs w'' = {''/a/b'', ''/a'', ''/''})"
proof -
  have p: "dir_prefixes ''/a/b'' = [''/a'', ''/a/b'']"
    by (simp add: dir_prefixes_def dir_prefixes_from_def upt_rec)
  from mkdir_walk[OF example_walk] p show ?thesis by simp
qed

lemma example_walk_refused:
  "mkdir_loop ''/a/b/c'' 1 (example_world\<lparr>mkdir_refused := (\<lambda>p. None)(''/a/b'' \<mapsto> Errno 13)\<rparr>) =
     (Inl (Exit_failure ''Error: could not create path /a/b''),
      example_world\<lparr>dirs := {''/a'', ''/''},
        mkdir_refused := (\<lambda>p. None)(''/a/b'' \<mapsto> Errno 13),
        trace := [Ev_mkdir ''/a'' (octal [7, 7, 7]), Ev_mkdir ''/a/b'' (octal [7, 7, 7])]\<rparr>)"
  by (simp add: mkdir_loop.simps strchr_from_def mkdir_def example_world_def Let_def)

subsection \<open>Opening the per-crash directory\<close>

text \<open>
  The leaf is not handed to \<open>mkdir\<close>. It is asked for by one \<open>openat\<close> with
  \<open>O_CREAT | O_DIRECTORY | O_RDWR\<close> and mode 0755, which fails whatever the state of the
  file system: the store action exits there, before \<open>core\<close> and \<open>info.txt\<close>, and never
  returns 0.
\<close>

lemma open_store_dir_refused:
  "open_store_dir dir leaf w =
     (Inl (Exit_failure (''Error: could not open storage dir '' @ leaf)),
      w\<lparr>trace := trace w @
         [Ev_openat (join dir leaf) [O_CREAT, O_DIRECTORY, O_RDWR] (octal [7, 5, 5])]\<rparr>)"
  by (simp add: open_store_dir_def openat_def Let_def)

lemma act_store_never_succeeds: "fst (act_store e optind dir argv w) \<noteq> Inr r"
  by (simp add: act_store_def open_store_dir_refused Let_def split: sum.splits prod.splits bool.splits)

text \<open>
  Claim C6. The directory initializer creates every path component of the base directory
  and the per-crash leaf, prefix by prefix with mode 0777, \<open>EEXIST\<close> counting as success
  and any other failure being fatal. The code on a command line without options, with an
  empty crash image and only the root directory in place: the four prefixes of the default
  base directory are created by \<open>mkdir\<close>, the leaf is asked for by the one \<open>openat\<close> and
  refused, and the run exits with a failure, the leaf not created.
\<close>

theorem leaf_dir_never_created:
  "main example_env no_options
      [''dumpctl'', ''store'', ''-'', ''-'', ''1234'', ''0'', ''0'', ''11'', ''1700000000'', ''myprog'', ''/usr/bin/myprog'']
      example_world =
     (Inl (Exit_failure ''Error: could not open storage dir 2023-11-14_22:13:20.pid=1234.uid=0''),
      example_world\<lparr>dirs := {''/var/lib/systemd/coredump'', ''/var/lib/systemd'', ''/var/lib'', ''/var'', ''/''},
        trace := [Ev_mkdir ''/var'' (octal [7, 7, 7]),
                  Ev_mkdir ''/var/lib'' (octal [7, 7, 7]),
                  Ev_mkdir ''/var/lib/systemd'' (octal [7, 7, 7]),
                  Ev_mkdir ''/var/lib/systemd/coredump'' (octal [7, 7, 7]),
                  Ev_opendir ''/var/lib/systemd/coredump'',
                  Ev_openat ''/var/lib/systemd/coredump/2023-11-14_22:13:20.pid=1234.uid=0''
                    [O_CREAT, O_DIRECTORY, O_RDWR] (octal [7, 5, 5])]\<rparr>) \<and>
   ''/var/lib/systemd/coredump/2023-11-14_22:13:20.pid=1234.uid=0'' \<notin>
     dirs (snd (main example_env no_options
      [''dumpctl'', ''store'', ''-'', ''-'', ''1234'', ''0'', ''0'', ''11'', ''1700000000'', ''myprog'', ''/usr/bin/myprog'']
      example_world))"
proof -
  have leaf: "format_leaf example_env 1700000000 1234 0 = Inr ''2023-11-14_22:13:20.pid=1234.uid=0''"
    using leaf_name_example by simp
  have orf: "open_refused example_world = {}" by (simp add: example_world_def)
  have st: "act_store example_env 1 default_path
      [''-'', ''-'', ''1234'', ''0'', ''0'', ''11'', ''1700000000'', ''myprog'', ''/usr/bin/myprog''] example_world =
     (Inl (Exit_failure ''Error: could not open storage dir 2023-11-14_22:13:20.pid=1234.uid=0''),
      example_world\<lparr>dirs := {''/var/lib/systemd/coredump'', ''/var/lib/systemd'', ''/var/lib'', ''/var'', ''/''},
        trace := [Ev_mkdir ''/var'' (octal [7, 7, 7]),
                  Ev_mkdir ''/var/lib'' (octal [7, 7, 7]),
                  Ev_mkdir ''/var/lib/systemd'' (octal [7, 7, 7]),
                  Ev_mkdir ''/var/lib/systemd/coredump'' (octal [7, 7, 7]),
                  Ev_opendir ''/var/lib/systemd/coredump'',
                  Ev_openat ''/var/lib/systemd/coredump/2023-11-14_22:13:20.pid=1234.uid=0''
                    [O_CREAT, O_DIRECTORY, O_RDWR] (octal [7, 5, 5])]\<rparr>)"
    unfolding act_store_def default_path_def
    by (simp add: store_arg_errors_def example_event[simplified] default_walk[simplified] leaf
        opendir_def open_store_dir_refused join_def orf)
  have run: "main example_env no_options
      [''dumpctl'', ''store'', ''-'', ''-'', ''1234'', ''0'', ''0'', ''11'', ''1700000000'', ''myprog'', ''/usr/bin/myprog'']
      example_world =
    act_store example_env 1 default_path
      [''-'', ''-'', ''1234'', ''0'', ''0'', ''11'', ''1700000000'', ''myprog'', ''/usr/bin/myprog''] example_world"
    by (simp add: main_def no_options_def argv_at_def parse_act_def)
  show ?thesis unfolding run st by simp
qed

end
